theory Spec2Isabelle
  imports Main "HOL-Library.Word" "HOL-Library.Multiset" "HOL-Library.Sublist"
begin

section \<open>Values, faults and the console\<close>

text \<open>
  The benchmark \<^verbatim>\<open>main_sum.cpp\<close> sums an array of \<^verbatim>\<open>unsigned int\<close>: 32-bit words
  whose addition wraps around.
\<close>

type_synonym u32 = "32 word"

text \<open>
  What ends a run abnormally: the \<^verbatim>\<open>std::runtime_error\<close> thrown by \<^verbatim>\<open>raiseFail\<close>
  (with its \<^verbatim>\<open>what()\<close> text), a read outside a vector, a read of a cell nothing has
  written, the overflow of a signed \<^verbatim>\<open>int\<close> loop counter, and a division by zero.
\<close>

datatype fault =
    RuntimeError string
  | OutOfBounds nat
  | UninitializedRead
  | SignedOverflow
  | DivisionByZero

text \<open>\<^verbatim>\<open>operator<<\<close> on an unsigned or non-negative integer: its decimal digits.\<close>

function show_nat :: "nat \<Rightarrow> string" where
  "show_nat k = (if k < 10 then [''0123456789'' ! k]
                 else show_nat (k div 10) @ [''0123456789'' ! (k mod 10)])"
  by pat_completeness auto
termination
  by (relation "measure id") auto

declare show_nat.simps [simp del]

section \<open>The equality check\<close>

text \<open>
  \<^verbatim>\<open>
  template<typename T>
  void raiseFail(const T &a, const T &b, std::string message, std::string filename, int line)
  {
      if (a != b) {
          std::cerr << message << " But " << a << " != " << b << ", " << filename << ":" << line << std::endl;
          throw std::runtime_error(message);
      }
  }
  \<close>
  The function is used at \<^verbatim>\<open>T = unsigned int\<close>. Its only effect is on \<^verbatim>\<open>std::cerr\<close>,
  modelled as the list of lines written so far; the result is the exception or unit.
\<close>

definition fail_line :: "u32 \<Rightarrow> u32 \<Rightarrow> string \<Rightarrow> string \<Rightarrow> nat \<Rightarrow> string" where
  "fail_line a b message filename line =
     message @ '' But '' @ show_nat (unat a) @ '' != '' @ show_nat (unat b) @ '', ''
       @ filename @ '':'' @ show_nat line"

definition raiseFail ::
  "u32 \<Rightarrow> u32 \<Rightarrow> string \<Rightarrow> string \<Rightarrow> nat \<Rightarrow> string list \<Rightarrow> (fault + unit) \<times> string list" where
  "raiseFail a b message filename line err =
     (if a \<noteq> b
      then (Inl (RuntimeError message), err @ [fail_line a b message filename line])
      else (Inr (), err))"

section \<open>Input generation and the reference sum\<close>

text \<open>
  \<^verbatim>\<open>as[i]\<close> on a \<^verbatim>\<open>std::vector\<close>: a read outside the vector is undefined
  behaviour, which the model reports as a fault.
\<close>

definition rd :: "u32 list \<Rightarrow> nat \<Rightarrow> fault + u32" where
  "rd as i = (if i < length as then Inr (as ! i) else Inl (OutOfBounds i))"

text \<open>The largest \<^verbatim>\<open>int\<close>: \<^verbatim>\<open>++i\<close> at this value overflows.\<close>

definition INT_MAX :: nat where
  "INT_MAX = 2147483647"

text \<open>\<^verbatim>\<open>std::numeric_limits<unsigned int>::max()\<close>.\<close>

definition UINT_MAX :: u32 where
  "UINT_MAX = 4294967295"

text \<open>
  \<^verbatim>\<open>
  unsigned int reference_sum = 0;
  unsigned int n = 100*1000*1000;
  std::vector<unsigned int> as(n, 0);
  FastRandom r(42);
  for (int i = 0; i < n; ++i) {
      as[i] = (unsigned int) r.next(0, std::numeric_limits<unsigned int>::max() / n);
      reference_sum += as[i];
  }
  \<close>
  The length \<open>n\<close> is a parameter of the model. The counter \<open>i\<close> is an \<^verbatim>\<open>int\<close> that
  starts at 0 and only grows, so its value is a \<open>nat\<close>; \<^verbatim>\<open>i < n\<close> compares it as
  unsigned. \<^verbatim>\<open>FastRandom\<close> comes from a library header that is not among the sources:
  the generator is the parameter \<open>nxt\<close>, a function from the generator's state and the
  two bounds to the drawn value and the next state, and \<open>r\<close> is its state (seeded with
  42 in the program). The upper bound is the quotient of the largest \<^verbatim>\<open>unsigned int\<close>
  by \<open>n\<close>, an unsigned division.
\<close>

function gen_loop ::
  "('g \<Rightarrow> int \<Rightarrow> int \<Rightarrow> int \<times> 'g) \<Rightarrow> u32 \<Rightarrow> nat \<Rightarrow> 'g \<Rightarrow> u32 list \<Rightarrow> u32
     \<Rightarrow> fault + (u32 list \<times> u32)" where
  "gen_loop nxt n i r as reference_sum =
     (if i < unat n then
        (if n = 0 then Inl DivisionByZero
         else case nxt r 0 (uint (UINT_MAX div n)) of (v, r') \<Rightarrow>
           if i < length as then
             (let as' = as[i := word_of_int v] in
              if i = INT_MAX then Inl SignedOverflow
              else gen_loop nxt n (i + 1) r' as' (reference_sum + as' ! i))
           else Inl (OutOfBounds i))
      else Inr (as, reference_sum))"
  by pat_completeness auto
termination
  by (relation "measure (\<lambda>(nxt, n, i, r, as, s). unat n - i)") auto

declare gen_loop.simps [simp del]

definition generate ::
  "('g \<Rightarrow> int \<Rightarrow> int \<Rightarrow> int \<times> 'g) \<Rightarrow> 'g \<Rightarrow> u32 \<Rightarrow> fault + (u32 list \<times> u32)" where
  "generate nxt seed n = gen_loop nxt n 0 seed (replicate (unat n) 0) 0"

text \<open>
  Modelled from the spec: what \<^verbatim>\<open>FastRandom::next(lo, hi)\<close>, whose header is missing,
  promises: "values drawn uniformly from [0, floor(max_uint32 / N)]", that is, the drawn
  value lies between the two bounds it is given. Nothing else about the generator is
  used.
\<close>

definition respects_bounds :: "('g \<Rightarrow> int \<Rightarrow> int \<Rightarrow> int \<times> 'g) \<Rightarrow> bool" where
  "respects_bounds nxt \<longleftrightarrow>
     (\<forall>r lo hi. lo \<le> hi \<longrightarrow> lo \<le> fst (nxt r lo hi) \<and> fst (nxt r lo hi) \<le> hi)"

section \<open>The CPU strategies\<close>

text \<open>
  \<^verbatim>\<open>
  unsigned int sum = 0;
  for (int i = 0; i < n; ++i) {
      sum += as[i];
  }
  \<close>
  \<open>cpu_loop as n i s\<close> is the loop from counter \<open>i\<close> with \<^verbatim>\<open>sum\<close> equal to \<open>s\<close>.
\<close>

function cpu_loop :: "u32 list \<Rightarrow> u32 \<Rightarrow> nat \<Rightarrow> u32 \<Rightarrow> fault + u32" where
  "cpu_loop as n i s =
     (if i < unat n then
        (case rd as i of
           Inl e \<Rightarrow> Inl e
         | Inr a \<Rightarrow> if i = INT_MAX then Inl SignedOverflow
                    else cpu_loop as n (i + 1) (s + a))
      else Inr s)"
  by pat_completeness auto
termination
  by (relation "measure (\<lambda>(as, n, i, s). unat n - i)") auto

declare cpu_loop.simps [simp del]

definition cpu_sum :: "u32 list \<Rightarrow> u32 \<Rightarrow> fault + u32" where
  "cpu_sum as n = cpu_loop as n 0 0"

text \<open>
  The values the loop stores into \<^verbatim>\<open>sum\<close>, in order: one store for each
  \<^verbatim>\<open>sum += as[i]\<close> it executes.
\<close>

function cpu_stores :: "u32 list \<Rightarrow> u32 \<Rightarrow> nat \<Rightarrow> u32 \<Rightarrow> u32 list" where
  "cpu_stores as n i s =
     (if i < unat n then
        (case rd as i of
           Inl e \<Rightarrow> []
         | Inr a \<Rightarrow> (s + a) # (if i = INT_MAX then [] else cpu_stores as n (i + 1) (s + a)))
      else [])"
  by pat_completeness auto
termination
  by (relation "measure (\<lambda>(as, n, i, s). unat n - i)") auto

declare cpu_stores.simps [simp del]

text \<open>
  Adding up the elements at a list of indices, in the order of the list, into an
  accumulator: what one thread does with the iterations it is given.
\<close>

fun accumulate :: "u32 list \<Rightarrow> nat list \<Rightarrow> u32 \<Rightarrow> fault + u32" where
  "accumulate as [] s = Inr s"
| "accumulate as (i # is) s =
     (case rd as i of Inl e \<Rightarrow> Inl e | Inr a \<Rightarrow> accumulate as is (s + a))"

text \<open>
  \<^verbatim>\<open>
  unsigned int sum = 0;
  #pragma omp parallel for reduction(+:sum)
  for (int i = 0; i < n; ++i) {
      sum += as[i];
  }
  \<close>
  OpenMP gives every worker thread a private copy of \<^verbatim>\<open>sum\<close> initialised to 0, hands
  each iteration to exactly one thread, and at the end adds the private copies to the
  original variable in an order and grouping it does not specify. A \<open>reduction\<close> is one
  way this can happen: \<open>Worker is\<close> is a thread that runs the iterations \<open>is\<close> in this
  order, \<open>Combine l r\<close> adds two partial results. It is admissible for \<open>n\<close> when every
  iteration \<open>0, \<dots>, n - 1\<close> is run exactly once.
\<close>

datatype reduction = Worker "nat list" | Combine reduction reduction

fun iterations :: "reduction \<Rightarrow> nat list" where
  "iterations (Worker is) = is"
| "iterations (Combine l r) = iterations l @ iterations r"

fun reduce :: "u32 list \<Rightarrow> reduction \<Rightarrow> fault + u32" where
  "reduce as (Worker is) = accumulate as is 0"
| "reduce as (Combine l r) =
     (case reduce as l of
        Inl e \<Rightarrow> Inl e
      | Inr x \<Rightarrow> (case reduce as r of Inl e \<Rightarrow> Inl e | Inr y \<Rightarrow> Inr (x + y)))"

definition admissible :: "u32 \<Rightarrow> reduction \<Rightarrow> bool" where
  "admissible n plan \<longleftrightarrow> mset (iterations plan) = mset [0..<unat n]"

definition omp_sum :: "u32 list \<Rightarrow> reduction \<Rightarrow> fault + u32" where
  "omp_sum as plan = (case reduce as plan of Inl e \<Rightarrow> Inl e | Inr p \<Rightarrow> Inr (0 + p))"

section \<open>The launch configuration\<close>

text \<open>
  \<^verbatim>\<open>
  const int workGroupSize = 128;
  const int global_work_size = (n + workGroupSize - 1) / workGroupSize * workGroupSize;
  \<close>
  \<open>n\<close> is an \<^verbatim>\<open>unsigned int\<close>, so the whole expression is computed in unsigned 32-bit
  arithmetic and the result is then converted to \<^verbatim>\<open>int\<close>.
\<close>

definition workGroupSize :: int where
  "workGroupSize = 128"

definition global_work_size :: "u32 \<Rightarrow> int" where
  "global_work_size n =
     sint ((n + word_of_int workGroupSize - 1) div word_of_int workGroupSize
             * word_of_int workGroupSize)"

text \<open>
  The value of the initialiser \<^verbatim>\<open>(n + workGroupSize - 1) / workGroupSize * workGroupSize\<close>
  itself: an \<^verbatim>\<open>unsigned int\<close>, before it is converted to the \<^verbatim>\<open>int\<close> that
  \<open>global_work_size\<close> is.
\<close>

definition global_work_size_unsigned :: "u32 \<Rightarrow> u32" where
  "global_work_size_unsigned n =
     (n + word_of_int workGroupSize - 1) div word_of_int workGroupSize
       * word_of_int workGroupSize"

definition kernel_names :: "string list" where
  "kernel_names =
     [''sum_dummy'', ''sum_global_atomic'', ''sum_loop'', ''sum_loop_coalesced'',
      ''sum_local_memory'', ''sum_tree'']"

definition benchmarkingIters :: nat where
  "benchmarkingIters = 10"

section \<open>The accelerator kernels\<close>

text \<open>
  The kernel source \<^verbatim>\<open>cl/sum.cl\<close> (included as \<^verbatim>\<open>cl/sum_cl.h\<close>) is not among the
  sources. Every definition of this section is modelled from the specification: its
  table of the six variants, their shared contract and the launch rule. The main program
  names the kernels and says of each in a comment what it does; the model agrees with
  these comments.

  A launch runs \<open>gws\<close> execution units, numbered \<open>0, \<dots>, gws - 1\<close>, in groups of \<open>wgs\<close>
  consecutive units; unit \<open>gid\<close> is unit \<open>gid mod wgs\<close> of group \<open>gid div wgs\<close>.
\<close>

text \<open>
  Modelled from the spec: the six variants, "fixed and enumerated", under the names the
  main program compiles them by (the kernel bodies are the missing part).
\<close>

datatype kernel =
    sum_dummy | sum_global_atomic | sum_loop | sum_loop_coalesced | sum_local_memory | sum_tree

text \<open>
  Modelled from the spec: "a dispatch-by-name compile step", from the name in
  \<^verbatim>\<open>kernel_names\<close> to the variant; the missing part is the kernel module that is
  searched for the name.
\<close>

definition kernel_of_name :: "string \<Rightarrow> kernel option" where
  "kernel_of_name name =
     (if name = ''sum_dummy'' then Some sum_dummy
      else if name = ''sum_global_atomic'' then Some sum_global_atomic
      else if name = ''sum_loop'' then Some sum_loop
      else if name = ''sum_loop_coalesced'' then Some sum_loop_coalesced
      else if name = ''sum_local_memory'' then Some sum_local_memory
      else if name = ''sum_tree'' then Some sum_tree
      else None)"

text \<open>
  Modelled from the spec: the input indices that unit \<open>gid\<close> reads, in order (the kernel
  bodies are missing). Every read is guarded by the index being below \<open>n\<close> ("units whose
  index exceeds N must perform no out-of-bounds access and contribute nothing"). \<open>vpw\<close>
  is the "fixed number of elements per unit" of the two loop variants, which the main
  program's comment calls \<^verbatim>\<open>VALUES_PER_WORKITEM\<close>.
  \<^item> dummy: "one single execution unit iterates the entire array";
  \<^item> global atomic: every unit handles "its own single element";
  \<^item> local-memory staged and tree reduction: the scratch buffer is "sized to the
    group", one slot for each unit, and a unit stages the element at its own index;
  \<^item> loop (strided): each unit sums \<open>vpw\<close> elements, "stepping through memory with a
    stride equal to the total unit count";
  \<^item> loop (coalesced): the same workload, where "a group of co-scheduled units together
    touch a contiguous block per step": group \<open>g\<close> owns the block of \<open>wgs * vpw\<close>
    elements that starts at \<open>g * (wgs * vpw)\<close>, and in step \<open>j\<close> its units read the
    \<open>wgs\<close> adjacent elements that start at offset \<open>j * wgs\<close> of the block.
\<close>

fun unit_reads :: "kernel \<Rightarrow> nat \<Rightarrow> nat \<Rightarrow> nat \<Rightarrow> u32 \<Rightarrow> nat \<Rightarrow> nat list" where
  "unit_reads sum_dummy vpw wgs gws n gid = (if gid = 0 then [0..<unat n] else [])"
| "unit_reads sum_global_atomic vpw wgs gws n gid = filter (\<lambda>i. i < unat n) [gid]"
| "unit_reads sum_loop vpw wgs gws n gid =
     filter (\<lambda>i. i < unat n) (map (\<lambda>j. gid + j * gws) [0..<vpw])"
| "unit_reads sum_loop_coalesced vpw wgs gws n gid =
     filter (\<lambda>i. i < unat n)
       (map (\<lambda>j. (gid div wgs) * (wgs * vpw) + j * wgs + gid mod wgs) [0..<vpw])"
| "unit_reads sum_local_memory vpw wgs gws n gid = filter (\<lambda>i. i < unat n) [gid]"
| "unit_reads sum_tree vpw wgs gws n gid = filter (\<lambda>i. i < unat n) [gid]"

text \<open>
  Modelled from the spec: the partial sum of one unit (the kernel bodies are missing),
  accumulated with 32-bit wraparound addition from 0 over the elements it reads from the
  input buffer.
\<close>

definition unit_sum :: "kernel \<Rightarrow> nat \<Rightarrow> nat \<Rightarrow> nat \<Rightarrow> u32 list \<Rightarrow> u32 \<Rightarrow> nat \<Rightarrow> fault + u32" where
  "unit_sum k vpw wgs gws as n gid = accumulate as (unit_reads k vpw wgs gws n gid) 0"

text \<open>
  Modelled from the spec: the units of a group store into the scratch buffer one after
  the other for the model; a fault in one of them is the fault of the launch.
\<close>

fun collect :: "(fault + 'a) list \<Rightarrow> fault + 'a list" where
  "collect [] = Inr []"
| "collect (Inl e # rs) = Inl e"
| "collect (Inr x # rs) = (case collect rs of Inl e \<Rightarrow> Inl e | Inr xs \<Rightarrow> Inr (x # xs))"

text \<open>
  Modelled from the spec: the scratch buffer of group \<open>g\<close>, "sized to the group", after
  every unit of the group has stored its partial sum in its own slot and the group has
  passed the barrier (the kernel bodies are missing).
\<close>

definition stage :: "kernel \<Rightarrow> nat \<Rightarrow> nat \<Rightarrow> nat \<Rightarrow> u32 list \<Rightarrow> u32 \<Rightarrow> nat \<Rightarrow> fault + u32 list" where
  "stage k vpw wgs gws as n g =
     collect (map (\<lambda>lid. unit_sum k vpw wgs gws as n (g * wgs + lid)) [0..<wgs])"

text \<open>
  Modelled from the spec: one step of the tree reduction (the body of \<^verbatim>\<open>sum_tree\<close> is
  missing), "partial sums are combined pairwise". In the step of width \<open>s\<close> every unit
  \<open>lid < s\<close> adds slot \<open>lid + s\<close> to slot \<open>lid\<close>; the other slots keep their values.
\<close>

definition halve :: "nat \<Rightarrow> u32 list \<Rightarrow> u32 list" where
  "halve s scratch =
     map (\<lambda>lid. if lid < s then scratch ! lid + scratch ! (lid + s) else scratch ! lid)
       [0..<length scratch]"

text \<open>
  Modelled from the spec: the "successive halving steps inside the shared fast-scratch
  buffer" of the missing \<^verbatim>\<open>sum_tree\<close>. After a step the units meet at a barrier and the
  width is halved, until it is 0.
\<close>

function tree_steps :: "nat \<Rightarrow> u32 list \<Rightarrow> u32 list" where
  "tree_steps s scratch = (if s = 0 then scratch else tree_steps (s div 2) (halve s scratch))"
  by pat_completeness auto
termination
  by (relation "measure fst") auto

declare tree_steps.simps [simp del]

text \<open>
  Modelled from the spec: what participant \<open>p\<close> adds to the result cell, \<open>None\<close> when it
  adds nothing (the kernel bodies are missing). The participants of dummy, global atomic
  and the two loop variants are the units: the single unit 0 of dummy adds the sum of
  the array, a unit of global atomic adds "its own single element" if it has one, a unit
  of a loop variant adds its partial sum. The participants of the two staged variants
  are the groups: "one representative per group adds the group partial into the global
  result", where the group partial is the sum of the scratch buffer taken slot by slot
  (local-memory staged), or slot 0 after the halving steps (tree reduction).
\<close>

fun contribution ::
  "kernel \<Rightarrow> nat \<Rightarrow> nat \<Rightarrow> nat \<Rightarrow> u32 list \<Rightarrow> u32 \<Rightarrow> nat \<Rightarrow> (fault + u32) option" where
  "contribution sum_dummy vpw wgs gws as n p =
     (if p = 0 then Some (unit_sum sum_dummy vpw wgs gws as n p) else None)"
| "contribution sum_global_atomic vpw wgs gws as n p =
     (if p < unat n then Some (unit_sum sum_global_atomic vpw wgs gws as n p) else None)"
| "contribution sum_loop vpw wgs gws as n p = Some (unit_sum sum_loop vpw wgs gws as n p)"
| "contribution sum_loop_coalesced vpw wgs gws as n p =
     Some (unit_sum sum_loop_coalesced vpw wgs gws as n p)"
| "contribution sum_local_memory vpw wgs gws as n p =
     Some (case stage sum_local_memory vpw wgs gws as n p of
             Inl e \<Rightarrow> Inl e
           | Inr scratch \<Rightarrow> Inr (foldl (+) 0 scratch))"
| "contribution sum_tree vpw wgs gws as n p =
     Some (case stage sum_tree vpw wgs gws as n p of
             Inl e \<Rightarrow> Inl e
           | Inr scratch \<Rightarrow> Inr (tree_steps (wgs div 2) scratch ! 0))"

text \<open>
  Modelled from the spec: who adds to the result cell in a launch (the kernel bodies are
  missing): the units, or for the two staged variants the groups, "one op per group
  instead of one per element".
\<close>

definition participants :: "kernel \<Rightarrow> nat \<Rightarrow> nat \<Rightarrow> nat list" where
  "participants k wgs gws =
     (if k = sum_local_memory \<or> k = sum_tree then [0..<gws div wgs] else [0..<gws])"

text \<open>
  Modelled from the spec: the additions into the single result cell (the device's atomic
  add is missing) are atomic, so they take effect one after the other, in an order the
  device chooses. An addition reads the cell: on a cell nothing has written it is a fault.
\<close>

fun atomic_adds :: "(fault + u32) option list \<Rightarrow> u32 option \<Rightarrow> fault + u32 option" where
  "atomic_adds [] cell = Inr cell"
| "atomic_adds (None # cs) cell = atomic_adds cs cell"
| "atomic_adds (Some (Inl e) # cs) cell = Inl e"
| "atomic_adds (Some (Inr v) # cs) cell =
     (case cell of
        None \<Rightarrow> Inl UninitializedRead
      | Some r \<Rightarrow> atomic_adds cs (Some (r + v)))"

text \<open>
  Modelled from the spec: one launch of kernel \<open>k\<close> (the launch primitive is missing) on
  the input buffer \<open>as\<close> and the result cell, with the participants adding in the order
  \<open>order\<close>.
\<close>

definition run_kernel ::
  "kernel \<Rightarrow> nat \<Rightarrow> nat list \<Rightarrow> nat \<Rightarrow> nat \<Rightarrow> u32 list \<Rightarrow> u32 option \<Rightarrow> u32 \<Rightarrow> fault + u32 option" where
  "run_kernel k vpw order wgs gws as cell n =
     atomic_adds (map (contribution k vpw wgs gws as n) order) cell"

text \<open>
  Modelled from the spec: the orders a launch can follow (the device's scheduler is
  missing): every participant of the launch adds exactly once.
\<close>

definition launch_order :: "kernel \<Rightarrow> nat \<Rightarrow> nat \<Rightarrow> nat list \<Rightarrow> bool" where
  "launch_order k wgs gws order \<longleftrightarrow> mset order = mset (participants k wgs gws)"

text \<open>
  Modelled from the spec: the device as the main program sees it through
  \<^verbatim>\<open>kernel.exec(gpu::WorkSize(workGroupSize, global_work_size), as_gpu, result_gpu, n)\<close>:
  the kernel is found by its name and launched with the two sizes. \<open>orders name iter\<close>
  is the order the device follows in trial \<open>iter\<close> of kernel \<open>name\<close>.
\<close>

definition device ::
  "nat \<Rightarrow> (string \<Rightarrow> nat \<Rightarrow> nat list) \<Rightarrow> string \<Rightarrow> nat \<Rightarrow> int \<Rightarrow> int \<Rightarrow> u32 list \<Rightarrow> u32 option \<Rightarrow> u32
     \<Rightarrow> fault + u32 option" where
  "device vpw orders name iter wgs gws as cell n =
     (case kernel_of_name name of
        None \<Rightarrow> Inl (RuntimeError name)
      | Some k \<Rightarrow> run_kernel k vpw (orders name iter) (nat wgs) (nat gws) as cell n)"

section \<open>The benchmark harness\<close>

text \<open>
  What the main program does that can be observed, in order. \<open>Reset\<close> is
  \<^verbatim>\<open>unsigned int sum = 0;\<close> or \<^verbatim>\<open>result_gpu.writeN(&zero, 1)\<close>; \<open>Execute\<close> is the
  summation loop or \<^verbatim>\<open>kernel.exec\<close>; \<open>ReadBack\<close> is \<^verbatim>\<open>result_gpu.readN(&result, 1)\<close>;
  \<open>Validate\<close> is \<^verbatim>\<open>EXPECT_THE_SAME\<close>; \<open>Compile\<close> is the construction of the
  \<^verbatim>\<open>ocl::Kernel\<close> and \<^verbatim>\<open>kernel.compile(false)\<close>; \<open>TimerStart\<close> is \<^verbatim>\<open>timer t;\<close>;
  \<open>NextLap\<close> is \<^verbatim>\<open>t.nextLap()\<close>; \<open>Report\<close> is the pair of lines printed after the
  trials. The timer and the printed numbers are real time and floating point: only
  their place in the order is modelled.
\<close>

datatype event =
    Compile string
  | TimerStart
  | Reset
  | Execute string
  | ReadBack
  | Validate string
  | NextLap
  | Report string

text \<open>
  The state the main program changes: the lines written to \<^verbatim>\<open>std::cerr\<close>, the events
  so far, and the one-element device buffer \<^verbatim>\<open>result_gpu\<close> (\<open>None\<close> until something is
  written to it).
\<close>

record world =
  cerr :: "string list"
  events :: "event list"
  result_gpu :: "u32 option"

definition emit :: "event \<Rightarrow> world \<Rightarrow> world" where
  "emit e w = w\<lparr>events := events w @ [e]\<rparr>"

text \<open>
  \<^verbatim>\<open>#define EXPECT_THE_SAME(a, b, message) raiseFail(a, b, message, __FILE__, __LINE__)\<close>.
  The path of the source file as the compiler was given it is the parameter \<open>file\<close>.
\<close>

definition EXPECT_THE_SAME ::
  "string \<Rightarrow> nat \<Rightarrow> u32 \<Rightarrow> u32 \<Rightarrow> string \<Rightarrow> world \<Rightarrow> (fault + unit) \<times> world" where
  "EXPECT_THE_SAME file line a b message w =
     (case raiseFail a b message file line (cerr w) of
        (r, c) \<Rightarrow> (r, (emit (Validate message) w)\<lparr>cerr := c\<rparr>))"

text \<open>
  A loop whose body can throw: \<^verbatim>\<open>for (int iter = 0; iter < benchmarkingIters; ++iter)\<close>
  over the trial numbers and \<^verbatim>\<open>for (auto name : kernel_names)\<close> over the names. The
  first exception ends the loop.
\<close>

fun for_each ::
  "('a \<Rightarrow> world \<Rightarrow> (fault + unit) \<times> world) \<Rightarrow> 'a list \<Rightarrow> world \<Rightarrow> (fault + unit) \<times> world" where
  "for_each body [] w = (Inr (), w)"
| "for_each body (x # xs) w =
     (case body x w of
        (Inl e, w') \<Rightarrow> (Inl e, w')
      | (Inr u, w') \<Rightarrow> for_each body xs w')"

text \<open>
  One trial of a CPU strategy (lines 39 to 44 and 53 to 59 of \<^verbatim>\<open>main_sum.cpp\<close>):
  \<^verbatim>\<open>
  unsigned int sum = 0;
  ... the loop ...
  EXPECT_THE_SAME(reference_sum, sum, "CPU result should be consistent!");
  t.nextLap();
  \<close>
  \<open>computed\<close> is what the loop leaves in \<^verbatim>\<open>sum\<close>, or the fault that ends it.
\<close>

definition cpu_trial ::
  "string \<Rightarrow> nat \<Rightarrow> string \<Rightarrow> string \<Rightarrow> u32 \<Rightarrow> (fault + u32) \<Rightarrow> world \<Rightarrow> (fault + unit) \<times> world" where
  "cpu_trial file line label message reference_sum computed w =
     (let w1 = emit (Execute label) (emit Reset w) in
      case computed of
        Inl e \<Rightarrow> (Inl e, w1)
      | Inr s \<Rightarrow>
          (case EXPECT_THE_SAME file line reference_sum s message w1 of
             (Inl e, w2) \<Rightarrow> (Inl e, w2)
           | (Inr u, w2) \<Rightarrow> (Inr (), emit NextLap w2)))"

text \<open>
  One block of the main program for a CPU strategy: the timer, the trials, the report.
  \<open>compute iter\<close> is the outcome of the loop in trial \<open>iter\<close>.
\<close>

definition cpu_section ::
  "string \<Rightarrow> nat \<Rightarrow> string \<Rightarrow> string \<Rightarrow> u32 \<Rightarrow> (nat \<Rightarrow> fault + u32) \<Rightarrow> world
     \<Rightarrow> (fault + unit) \<times> world" where
  "cpu_section file line label message reference_sum compute w =
     (case for_each (\<lambda>iter. cpu_trial file line label message reference_sum (compute iter))
             [0..<benchmarkingIters] (emit TimerStart w) of
        (Inl e, w') \<Rightarrow> (Inl e, w')
      | (Inr u, w') \<Rightarrow> (Inr (), emit (Report label) w'))"

text \<open>
  One trial of a kernel (lines 99 to 103):
  \<^verbatim>\<open>
  result_gpu.writeN(&zero, 1); // clear result
  kernel.exec(gpu::WorkSize(workGroupSize, global_work_size), as_gpu, result_gpu, n);
  result_gpu.readN(&result, 1);
  EXPECT_THE_SAME(reference_sum, result, name);
  t.nextLap();
  \<close>
  The device is the parameter \<open>exec\<close>: from the kernel's name, the trial number, the two
  sizes, the input buffer, the result cell and \<open>n\<close> to the result cell after the launch,
  or a fault.
\<close>

type_synonym executor =
  "string \<Rightarrow> nat \<Rightarrow> int \<Rightarrow> int \<Rightarrow> u32 list \<Rightarrow> u32 option \<Rightarrow> u32 \<Rightarrow> fault + u32 option"

definition gpu_trial ::
  "string \<Rightarrow> executor \<Rightarrow> u32 list \<Rightarrow> u32 \<Rightarrow> u32 \<Rightarrow> string \<Rightarrow> nat \<Rightarrow> world \<Rightarrow> (fault + unit) \<times> world" where
  "gpu_trial file exec as_gpu n reference_sum name iter w =
     (let w1 = emit Reset (w\<lparr>result_gpu := Some 0\<rparr>);
          w2 = emit (Execute name) w1 in
      case exec name iter workGroupSize (global_work_size n) as_gpu (result_gpu w1) n of
        Inl e \<Rightarrow> (Inl e, w2)
      | Inr cell \<Rightarrow>
          (let w3 = emit ReadBack (w2\<lparr>result_gpu := cell\<rparr>) in
           case cell of
             None \<Rightarrow> (Inl UninitializedRead, w3)
           | Some result \<Rightarrow>
               (case EXPECT_THE_SAME file 102 reference_sum result name w3 of
                  (Inl e, w4) \<Rightarrow> (Inl e, w4)
                | (Inr u, w4) \<Rightarrow> (Inr (), emit NextLap w4))))"

text \<open>
  The body of \<^verbatim>\<open>for (auto name : kernel_names)\<close> (lines 94 to 106), and the block
  around it, which copies the array to the device (\<^verbatim>\<open>as_gpu\<close> holds the array) and
  allocates the result buffer without writing to it. The choice of the device, the
  context and the buffer calls belong to libraries that are not among the sources; they
  are taken to return normally.
\<close>

definition gpu_kernel ::
  "string \<Rightarrow> executor \<Rightarrow> u32 list \<Rightarrow> u32 \<Rightarrow> u32 \<Rightarrow> string \<Rightarrow> world \<Rightarrow> (fault + unit) \<times> world" where
  "gpu_kernel file exec as_gpu n reference_sum name w =
     (case for_each (gpu_trial file exec as_gpu n reference_sum name)
             [0..<benchmarkingIters] (emit TimerStart (emit (Compile name) w)) of
        (Inl e, w') \<Rightarrow> (Inl e, w')
      | (Inr u, w') \<Rightarrow> (Inr (), emit (Report name) w'))"

definition gpu_section ::
  "string \<Rightarrow> executor \<Rightarrow> u32 list \<Rightarrow> u32 \<Rightarrow> u32 \<Rightarrow> world \<Rightarrow> (fault + unit) \<times> world" where
  "gpu_section file exec as n reference_sum w =
     for_each (gpu_kernel file exec as n reference_sum) kernel_names (w\<lparr>result_gpu := None\<rparr>)"

text \<open>
  The three blocks of the main program, in order: the sequential loop (its check is on
  line 43), the OpenMP loop (line 58), the kernels (line 102). \<open>cpu iter\<close> and
  \<open>omp iter\<close> are what the two loops leave in \<^verbatim>\<open>sum\<close> in trial \<open>iter\<close>. An exception
  in a block ends the program: the blocks after it do not run.
\<close>

definition run_benchmarks ::
  "string \<Rightarrow> u32 \<Rightarrow> (nat \<Rightarrow> fault + u32) \<Rightarrow> (nat \<Rightarrow> fault + u32) \<Rightarrow> executor \<Rightarrow> u32 list \<Rightarrow> u32
     \<Rightarrow> world \<Rightarrow> (fault + unit) \<times> world" where
  "run_benchmarks file reference_sum cpu omp exec as n w =
     (case cpu_section file 43 ''CPU'' ''CPU result should be consistent!'' reference_sum cpu w of
        (Inl e, w1) \<Rightarrow> (Inl e, w1)
      | (Inr u, w1) \<Rightarrow>
          (case cpu_section file 58 ''CPU OMP'' ''CPU OpenMP result should be consistent!''
                  reference_sum omp w1 of
             (Inl e, w2) \<Rightarrow> (Inl e, w2)
           | (Inr u, w2) \<Rightarrow> gpu_section file exec as n reference_sum w2))"

text \<open>
  The main program: the input and the reference sum, computed once, then the three
  blocks on that array. \<open>plans iter\<close> is the way OpenMP carries out the reduction in
  trial \<open>iter\<close>.
\<close>

definition main ::
  "string \<Rightarrow> ('g \<Rightarrow> int \<Rightarrow> int \<Rightarrow> int \<times> 'g) \<Rightarrow> 'g \<Rightarrow> u32 \<Rightarrow> (nat \<Rightarrow> reduction) \<Rightarrow> executor \<Rightarrow> world
     \<Rightarrow> (fault + unit) \<times> world" where
  "main file nxt seed n plans exec w =
     (case generate nxt seed n of
        Inl e \<Rightarrow> (Inl e, w)
      | Inr (as, reference_sum) \<Rightarrow>
          run_benchmarks file reference_sum (\<lambda>iter. cpu_sum as n)
            (\<lambda>iter. omp_sum as (plans iter)) exec as n w)"

text \<open>
  The laps the timer measures: a lap starts when the timer is constructed or the previous
  lap ends, and ends at the next \<^verbatim>\<open>t.nextLap()\<close>. \<open>laps es cur\<close> collects, for each lap
  that ends in \<open>es\<close>, the events that fall into it; \<open>cur\<close> holds the events of the lap in
  progress, \<open>None\<close> while no timer runs.
\<close>

fun laps :: "event list \<Rightarrow> event list option \<Rightarrow> event list list" where
  "laps [] cur = []"
| "laps (TimerStart # es) cur = laps es (Some [])"
| "laps (NextLap # es) cur = (case cur of None \<Rightarrow> laps es None | Some l \<Rightarrow> l # laps es (Some []))"
| "laps (Report name # es) cur = laps es None"
| "laps (e # es) cur = (case cur of None \<Rightarrow> laps es None | Some l \<Rightarrow> laps es (Some (l @ [e])))"

section \<open>Properties of the equality check\<close>

text \<open>
  Claim C9. \<^verbatim>\<open>raiseFail(a, b, message, filename, line)\<close> throws exactly when
  \<^verbatim>\<open>a != b\<close>; when the two values are equal it returns normally and leaves the error
  stream, the only state it can touch, as it was.
\<close>

theorem raiseFail_throws_iff:
  "((\<exists>e. fst (raiseFail a b message filename line err) = Inl e) \<longleftrightarrow> a \<noteq> b)
   \<and> (a = b \<longrightarrow> raiseFail a b message filename line err = (Inr (), err))"
  by (simp add: raiseFail_def)

theorem raiseFail_throws_iff_witness:
  "(7::u32) = 7
   \<and> raiseFail 7 7 ''sum_tree'' ''main_sum.cpp'' 102 [] = (Inr (), [])
   \<and> (7::u32) \<noteq> 8
   \<and> (\<exists>e. fst (raiseFail 7 8 ''sum_tree'' ''main_sum.cpp'' 102 []) = Inl e)"
  using raiseFail_throws_iff [of 7 7 "''sum_tree''" "''main_sum.cpp''" 102 "[]"]
    raiseFail_throws_iff [of 7 8 "''sum_tree''" "''main_sum.cpp''" 102 "[]"]
  by simp

section \<open>Properties of the loops\<close>

lemma cpu_loop_eq:
  "length as = unat n \<Longrightarrow> unat n \<le> INT_MAX \<Longrightarrow> i \<le> unat n \<Longrightarrow>
   cpu_loop as n i s = Inr (s + sum_list (drop i as))"
proof (induction as n i s rule: cpu_loop.induct)
  case (1 as n i s)
  show ?case
  proof (cases "i < unat n")
    case True
    then have d: "drop i as = as ! i # drop (Suc i) as"
      using 1 by (simp add: Cons_nth_drop_Suc)
    have "i \<noteq> INT_MAX" using True 1 by simp
    then show ?thesis using 1 True d
      by (subst cpu_loop.simps) (simp add: rd_def add.assoc)
  next
    case False
    then show ?thesis using 1 by (subst cpu_loop.simps) simp
  qed
qed

lemma cpu_stores_length:
  "length as = unat n \<Longrightarrow> unat n \<le> INT_MAX \<Longrightarrow> i \<le> unat n \<Longrightarrow>
   length (cpu_stores as n i s) = unat n - i"
proof (induction as n i s rule: cpu_stores.induct)
  case (1 as n i s)
  show ?case
  proof (cases "i < unat n")
    case True
    have "i \<noteq> INT_MAX" using True 1 by simp
    then show ?thesis using 1 True
      by (subst cpu_stores.simps) (simp add: rd_def)
  next
    case False
    then show ?thesis using 1 by (subst cpu_stores.simps) simp
  qed
qed

lemma gen_loop_inv:
  "length as = unat n \<Longrightarrow> unat n \<le> INT_MAX \<Longrightarrow> i \<le> unat n \<Longrightarrow>
   \<exists>bs. gen_loop nxt n i r as s = Inr (bs, s + sum_list (drop i bs)) \<and> length bs = unat n
     \<and> take i bs = take i as
     \<and> (respects_bounds nxt \<longrightarrow> list_all (\<lambda>a. a \<le> UINT_MAX div n) (drop i bs))"
proof (induction nxt n i r as s rule: gen_loop.induct)
  case (1 nxt n i r as s)
  show ?case
  proof (cases "i < unat n")
    case True
    obtain v r' where nx: "nxt r 0 (uint (UINT_MAX div n)) = (v, r')" by force
    let ?as = "as[i := word_of_int v]"
    have n0: "n \<noteq> 0" using True by auto
    have ne: "i \<noteq> INT_MAX" using True 1 by simp
    have il: "i < length as" using True 1 by simp
    from "1.IH"[OF True n0 nx[symmetric] il refl ne] 1(2-) True
    obtain bs where bs: "gen_loop nxt n (i + 1) r' ?as (s + ?as ! i) = Inr (bs, s + ?as ! i + sum_list (drop (i+1) bs))"
      "length bs = unat n" "take (i+1) bs = take (i+1) ?as"
      "respects_bounds nxt \<longrightarrow> list_all (\<lambda>a. a \<le> UINT_MAX div n) (drop (i + 1) bs)"
      by auto
    have bi: "bs ! i = ?as ! i" using bs(3) il bs(2) 1(2)
      by (metis Suc_eq_plus1 lessI nth_take)
    then have d: "drop i bs = ?as ! i # drop (i + 1) bs"
      using bs(2) True by (metis Cons_nth_drop_Suc Suc_eq_plus1)
    have "take i bs = take i (take (i + 1) bs)" by simp
    also have "\<dots> = take i (take (i + 1) ?as)" by (simp only: bs(3))
    also have "\<dots> = take i as" by simp
    finally have t: "take i bs = take i as" .
    have b: "?as ! i \<le> UINT_MAX div n" if rb: "respects_bounds nxt"
    proof -
      have "0 \<le> v \<and> v \<le> uint (UINT_MAX div n)"
        using rb nx unfolding respects_bounds_def
        by (metis fst_conv uint_ge_0)
      then have "uint (word_of_int v :: u32) = v"
        by (metis uint_word_of_int_eq take_bit_int_eq_self uint_lt2p order_le_less_trans)
      then show ?thesis using il \<open>0 \<le> v \<and> v \<le> uint (UINT_MAX div n)\<close>
        by (simp add: word_le_def)
    qed
    show ?thesis
      apply (subst gen_loop.simps)
      using True n0 nx il ne bs d t b by (simp add: Let_def add.assoc)
  next
    case False
    then show ?thesis using 1 by (subst gen_loop.simps) simp
  qed
qed

lemma unat_sum_list_bounded:
  "list_all (\<lambda>a. unat a \<le> b) xs \<Longrightarrow> b * length xs < 2 ^ 32 \<Longrightarrow>
   unat (sum_list xs :: u32) = sum_list (map unat xs) \<and> sum_list (map unat xs) \<le> b * length xs"
proof (induction xs)
  case Nil
  then show ?case by simp
next
  case (Cons a xs)
  have le: "b * length xs \<le> b * length (a # xs)" by simp
  then have ih: "unat (sum_list xs) = sum_list (map unat xs)" "sum_list (map unat xs) \<le> b * length xs"
    using Cons by auto
  have a: "unat a \<le> b" using Cons.prems by simp
  have "unat a + unat (sum_list xs) \<le> b * length (a # xs)" using a ih by simp
  then have "unat a + unat (sum_list xs) < 2 ^ LENGTH(32)" using Cons.prems(2) by simp
  then have "unat (a + sum_list xs) = unat a + unat (sum_list xs)"
    by (simp only: unat_add_lem)
  then show ?case using ih a by simp
qed

lemma accumulate_eq:
  "\<forall>i \<in> set is. i < length as \<Longrightarrow>
   accumulate as is s = Inr (s + sum_list (map (\<lambda>i. as ! i) is))"
  by (induction "is" arbitrary: s) (simp_all add: rd_def add.assoc)

lemma sum_list_perm:
  fixes f :: "nat \<Rightarrow> u32"
  shows "mset is = mset js \<Longrightarrow> sum_list (map f is) = sum_list (map f js)"
  by (metis mset_map sum_mset_sum_list)

lemma sum_list_nth_upt: "sum_list (map (\<lambda>i. as ! i) [0..<length as]) = sum_list as"
  by (simp add: map_nth)

lemma reduce_eq:
  "\<forall>i \<in> set (iterations plan). i < length as \<Longrightarrow>
   reduce as plan = Inr (sum_list (map (\<lambda>i. as ! i) (iterations plan)))"
  by (induction plan) (simp_all add: accumulate_eq)

lemma omp_sum_eq:
  assumes "admissible n plan" "length as = unat n"
  shows "omp_sum as plan = Inr (sum_list as)"
proof -
  have m: "mset (iterations plan) = mset [0..<length as]"
    using assms by (simp add: admissible_def)
  then have "set (iterations plan) = set [0..<length as]" by (rule mset_eq_setD)
  then have "\<forall>i \<in> set (iterations plan). i < length as" by simp
  then have "reduce as plan = Inr (sum_list (map (\<lambda>i. as ! i) (iterations plan)))"
    by (rule reduce_eq)
  also have "sum_list (map (\<lambda>i. as ! i) (iterations plan)) = sum_list as"
    using sum_list_perm[OF m] by (simp only: sum_list_nth_upt)
  finally show ?thesis by (simp add: omp_sum_def)
qed

lemma generate_success:
  "unat n \<le> INT_MAX \<Longrightarrow>
   \<exists>as. generate nxt seed n = Inr (as, sum_list as) \<and> length as = unat n
     \<and> (respects_bounds nxt \<longrightarrow> list_all (\<lambda>a. a \<le> UINT_MAX div n) as)"
  using gen_loop_inv[of "replicate (unat n) 0" n 0 nxt seed 0]
  by (auto simp: generate_def)

lemma gen_loop_Inr_bound:
  "gen_loop nxt n i r as s = Inr res \<Longrightarrow> i \<le> INT_MAX \<Longrightarrow> unat n \<le> INT_MAX \<or> unat n \<le> i"
proof (induction nxt n i r as s rule: gen_loop.induct)
  case (1 nxt n i r as s)
  show ?case
  proof (cases "i < unat n")
    case True
    obtain v r' where nx: "nxt r 0 (uint (UINT_MAX div n)) = (v, r')" by force
    have n0: "n \<noteq> 0" using True by auto
    from "1.prems"(1) True n0 nx have il: "i < length as" and ne: "i \<noteq> INT_MAX"
      and rec: "gen_loop nxt n (i + 1) r' (as[i := word_of_int v]) (s + as[i := word_of_int v] ! i) = Inr res"
      by (subst (asm) gen_loop.simps, simp add: Let_def split: if_splits)+
    from "1.IH"[OF True n0 nx[symmetric] il refl ne rec] ne "1.prems"(2)
    show ?thesis using True by auto
  next
    case False
    then show ?thesis by simp
  qed
qed

lemma generate_Inr:
  assumes "generate nxt seed n = Inr (as, ref)"
  shows "unat n \<le> INT_MAX \<and> length as = unat n \<and> ref = sum_list as"
proof -
  have "unat n \<le> INT_MAX \<or> unat n \<le> 0"
    using gen_loop_Inr_bound[of nxt n 0 seed _ 0] assms by (simp add: generate_def)
  then have b: "unat n \<le> INT_MAX" by auto
  from generate_success[OF b, of nxt seed] assms show ?thesis using b by auto
qed

section \<open>Properties of input generation\<close>

text \<open>
  Claim C3. With the program's \<open>n = 100,000,000\<close> and a generator that keeps to the
  bounds it is given, generation succeeds; the upper bound passed to the generator is
  the exact quotient \<open>4294967295 div 100000000 = 42\<close>, every element is at most this
  bound, the bound times \<open>n\<close> is at most the largest 32-bit value, and so the
  mathematical sum of the elements fits in 32 bits: the reference sum and every partial
  sum on the way to it equal the mathematical sums, so no addition wraps around.
\<close>

theorem generation_never_wraps:
  assumes "respects_bounds nxt"
  shows "\<exists>as reference_sum.
           generate nxt seed 100000000 = Inr (as, reference_sum)
         \<and> length as = 100000000
         \<and> UINT_MAX div 100000000 = 42
         \<and> list_all (\<lambda>a. a \<le> UINT_MAX div 100000000) as
         \<and> unat (UINT_MAX div 100000000) * unat (100000000 :: u32) \<le> unat UINT_MAX
         \<and> sum_list (map unat as) \<le> unat UINT_MAX
         \<and> unat reference_sum = sum_list (map unat as)
         \<and> (\<forall>k. unat (sum_list (take k as)) = sum_list (map unat (take k as)))"
proof -
  have n: "unat (100000000 :: u32) \<le> INT_MAX" by (simp add: INT_MAX_def)
  have q: "UINT_MAX div 100000000 = 42" by (simp add: UINT_MAX_def word_div_def)
  from generate_success[OF n, of nxt seed] assms
  obtain as where g: "generate nxt seed 100000000 = Inr (as, sum_list as)"
    and l: "length as = 100000000"
    and b: "list_all (\<lambda>a. a \<le> UINT_MAX div 100000000) as"
    by auto
  from b have b42: "list_all (\<lambda>a. unat a \<le> 42) as"
    by (simp add: q word_le_nat_alt)
  have pre: "unat (sum_list (take k as)) = sum_list (map unat (take k as))
             \<and> sum_list (map unat (take k as)) \<le> 42 * length (take k as)" for k
  proof (rule unat_sum_list_bounded)
    show "list_all (\<lambda>a. unat a \<le> 42) (take k as)"
      using b42 by (auto simp: list_all_iff dest: in_set_takeD)
    show "42 * length (take k as) < 2 ^ 32" using l by simp
  qed
  from pre[of "length as"] l
  have tot: "unat (sum_list as) = sum_list (map unat as)" "sum_list (map unat as) \<le> 4200000000"
    by simp_all
  have u: "unat UINT_MAX = 4294967295" by (simp add: UINT_MAX_def)
  show ?thesis
    using g l q b tot pre u by (intro exI[of _ as] exI[of _ "sum_list as"]) simp
qed

theorem generation_never_wraps_witness:
  "respects_bounds (\<lambda>(r :: nat) lo hi. (hi, r + 1))
   \<and> (\<exists>as reference_sum.
           generate (\<lambda>(r :: nat) lo hi. (hi, r + 1)) 42 100000000 = Inr (as, reference_sum)
         \<and> length as = 100000000
         \<and> sum_list (map unat as) \<le> unat UINT_MAX
         \<and> unat reference_sum = sum_list (map unat as))"
proof -
  have h: "respects_bounds (\<lambda>(r :: nat) lo hi. (hi, r + 1))"
    by (simp add: respects_bounds_def)
  from generation_never_wraps[OF h, of 42] obtain as reference_sum where
    "generate (\<lambda>(r :: nat) lo hi. (hi, r + 1)) 42 100000000 = Inr (as, reference_sum)"
    "length as = 100000000" "sum_list (map unat as) \<le> unat UINT_MAX"
    "unat reference_sum = sum_list (map unat as)"
    by blast
  then show ?thesis using h by blast
qed


section \<open>Properties of the CPU strategies\<close>

text \<open>
  Claim C2. For the array and the reference sum that generation produces, the OpenMP
  reduction returns exactly the reference sum for every admissible reduction: every way
  of giving each iteration to one worker, every order in which a worker runs its
  iterations, and every order and grouping in which the partial sums are combined. It is
  the value the sequential left-to-right loop returns.
\<close>

theorem omp_sum_is_reference:
  assumes "generate nxt seed n = Inr (as, reference_sum)" and "admissible n plan"
  shows "omp_sum as plan = Inr reference_sum \<and> cpu_sum as n = Inr reference_sum"
proof -
  from generate_Inr[OF assms(1)]
  have n: "unat n \<le> INT_MAX" and l: "length as = unat n" and r: "reference_sum = sum_list as"
    by simp_all
  have "cpu_sum as n = Inr (sum_list as)"
    using cpu_loop_eq[OF l n, of 0 0] by (simp add: cpu_sum_def)
  then show ?thesis using omp_sum_eq[OF assms(2) l] r by simp
qed

lemma replicate_three: "replicate 3 (0 :: u32) = [0, 0, 0]"
  by (simp add: numeral_3_eq_3)

lemma generate_three: "generate (\<lambda>(r :: nat) lo hi. (hi - int r, r + 1)) 0 3 = Inr ([1431655765, 1431655764, 1431655763], 4294967292)"
  by (simp add: generate_def gen_loop.simps INT_MAX_def UINT_MAX_def word_div_def replicate_three)

lemma admissible_three: "admissible 3 (Combine (Worker [2, 0]) (Combine (Worker []) (Worker [1])))"
  by (simp add: admissible_def upt_rec)

theorem omp_sum_is_reference_witness:
  "generate (\<lambda>(r :: nat) lo hi. (hi - int r, r + 1)) 0 3
     = Inr ([1431655765, 1431655764, 1431655763], 4294967292)
   \<and> admissible 3 (Combine (Worker [2, 0]) (Combine (Worker []) (Worker [1])))
   \<and> omp_sum [1431655765, 1431655764, 1431655763]
        (Combine (Worker [2, 0]) (Combine (Worker []) (Worker [1]))) = Inr 4294967292
   \<and> cpu_sum [1431655765, 1431655764, 1431655763] 3 = Inr 4294967292"
  using omp_sum_is_reference[OF generate_three admissible_three] generate_three admissible_three by simp

section \<open>Properties of the launch configuration\<close>

lemma sint_small:
  fixes w :: u32
  assumes "unat w < 2147483648"
  shows "sint w = int (unat w)"
proof -
  have p: "(2::int) ^ 31 = 2147483648" by simp
  have "int (unat w) < int 2147483648" using assms by (rule iffD2[OF of_nat_less_iff])
  then have u: "uint w < 2147483648" by (simp only: uint_nat[symmetric] of_nat_numeral)
  have "(0::int) \<le> uint w" by (rule uint_ge_0)
  then have l: "- 2147483648 \<le> uint w" by linarith
  have "signed_take_bit 31 (uint w) = uint w"
    by (rule signed_take_bit_int_eq_self) (simp_all only: p l u)
  moreover have "sint w = signed_take_bit 31 (uint w)"
    using sint_uint[of w] by simp
  ultimately show ?thesis by (simp only: uint_nat)
qed

lemma global_work_size_value:
  assumes "unat n \<le> 2147483520"
  shows "global_work_size n = int ((unat n + 127) div 128 * 128)"
proof -
  define r where "r = (n + 127) div 128 * 128"
  have e: "(n + word_of_int workGroupSize - 1) div word_of_int workGroupSize
             * word_of_int workGroupSize = r"
    by (simp add: workGroupSize_def r_def add.commute)
  have "unat n + unat (127 :: u32) < 2 ^ LENGTH(32)" using assms by simp
  then have a: "unat (n + 127) = unat n + 127"
    by (simp only: unat_add_lem) simp
  have d: "unat ((n + 127) div 128) = (unat n + 127) div 128"
    by (simp add: unat_div a)
  have "(unat n + 127) div 128 * 128 \<le> unat n + 127" by simp
  then have b: "(unat n + 127) div 128 * 128 < 2147483648" using assms by linarith
  then have "unat ((n + 127) div 128) * unat (128 :: u32) < 2 ^ LENGTH(32)"
    by (simp add: d)
  then have m: "unat r = (unat n + 127) div 128 * 128"
    unfolding r_def by (simp only: unat_mult_lem) (simp add: d)
  have "sint r = int (unat r)" using b by (intro sint_small) (simp add: m)
  then show ?thesis
    unfolding global_work_size_def e by (simp only: m)
qed

lemma global_work_size_round_up:
  assumes "unat n \<le> 2147483520"
  shows "global_work_size n mod 128 = 0 \<and> int (unat n) \<le> global_work_size n
         \<and> global_work_size n < int (unat n) + 128"
proof -
  define m where "m = unat n"
  have v: "global_work_size n = int ((m + 127) div 128 * 128)"
    unfolding m_def by (rule global_work_size_value[OF assms])
  have "((m + 127) div 128 * 128) mod 128 = 0" by simp
  then have "int (((m + 127) div 128 * 128) mod 128) = int 0" by (rule arg_cong)
  then have 1: "int ((m + 127) div 128 * 128) mod 128 = 0"
    by (simp only: zmod_int of_nat_numeral of_nat_0)
  have dm: "(m + 127) div 128 * 128 + (m + 127) mod 128 = m + 127"
    by (rule div_mult_mod_eq)
  have ml: "(m + 127) mod 128 < 128" by simp
  have 2: "m \<le> (m + 127) div 128 * 128" using dm ml by linarith
  have 3: "(m + 127) div 128 * 128 < m + 128" using dm by linarith
  have i2: "int m \<le> int ((m + 127) div 128 * 128)" using 2 by (rule iffD2[OF of_nat_le_iff])
  have "int ((m + 127) div 128 * 128) < int (m + 128)" using 3 by (rule iffD2[OF of_nat_less_iff])
  then have i3: "int ((m + 127) div 128 * 128) < int m + 128" by simp
  show ?thesis unfolding v m_def[symmetric] using 1 i2 i3 by (intro conjI)
qed


lemma global_work_size_nat:
  assumes "unat n \<le> 2147483520"
  shows "nat (global_work_size n) = (unat n + 127) div 128 * 128"
  by (simp only: global_work_size_value[OF assms] nat_int)

lemma global_work_size_program: "global_work_size 100000000 = 100000000"
  by (simp add: global_work_size_def workGroupSize_def word_div_def)

lemma global_work_size_unsigned_program:
  "unat (global_work_size_unsigned 100000000) = 100000000"
  by (simp add: global_work_size_unsigned_def workGroupSize_def word_div_def)







section \<open>Properties of the kernels\<close>

lemma sum_grouped:
  fixes g :: "nat \<Rightarrow> u32"
  shows "(\<Sum>m<q. \<Sum>l<k. g (m * k + l)) = (\<Sum>i<q * k. g i)"
proof -
  have "(\<Sum>l<k. g (m * k + l)) = sum g {m * k..<m * k + k}" for m
    using sum.shift_bounds_nat_ivl[of g 0 "m * k" k]
    by (simp add: atLeast0LessThan add.commute)
  then show ?thesis using sum.nat_group[of g k q] by simp
qed

lemma sum_list_upt_sum:
  fixes g :: "nat \<Rightarrow> u32"
  shows "sum_list (map g [0..<m]) = (\<Sum>i<m. g i)"
  by (simp add: interv_sum_list_conv_sum_set_nat atLeast0LessThan)

lemma sum_guarded:
  fixes as :: "u32 list"
  assumes "length as \<le> m"
  shows "(\<Sum>i<m. if i < length as then as ! i else 0) = sum_list as"
proof -
  have "(\<Sum>i<m. if i < length as then as ! i else 0)
        = (\<Sum>i\<in>{..<m} \<inter> {i. i < length as}. as ! i)"
    by (simp add: sum.inter_restrict)
  also have "{..<m} \<inter> {i. i < length as} = {0..<length as}" using assms by auto
  also have "(\<Sum>i\<in>{0..<length as}. as ! i) = sum_list as"
    by (simp add: sum_list_sum_nth)
  finally show ?thesis .
qed

lemma sum_list_filter_guard:
  fixes f :: "nat \<Rightarrow> u32"
  shows "sum_list (map f (filter P xs)) = sum_list (map (\<lambda>x. if P x then f x else 0) xs)"
  by (induction xs) simp_all

lemma foldl_add_sum_list:
  fixes xs :: "u32 list"
  shows "foldl (+) a xs = a + sum_list xs"
  by (induction xs arbitrary: a) (simp_all add: add.assoc)

lemma halve_length: "length (halve s scratch) = length scratch"
  by (simp add: halve_def)

lemma halve_sum:
  assumes "2 * s \<le> length scratch"
  shows "sum_list (take s (halve s scratch)) = sum_list (take (2 * s) scratch)"
proof -
  have t: "take s (halve s scratch) = map (\<lambda>lid. scratch ! lid + scratch ! (lid + s)) [0..<s]"
    using assms by (auto simp: halve_def take_map intro!: nth_equalityI)
  have "sum_list (take (2 * s) scratch) = sum ((!) scratch) {..<2 * s}"
    using assms by (simp add: sum_list_sum_nth atLeast0LessThan)
  also have "\<dots> = (\<Sum>m < (2::nat). \<Sum>l < s. scratch ! (m * s + l))"
    using sum_grouped[of "(!) scratch" s 2] by simp
  also have "\<dots> = (\<Sum>l < s. scratch ! l) + (\<Sum>l < s. scratch ! (s + l))"
    by (simp add: numeral_2_eq_2)
  also have "\<dots> = (\<Sum>l < s. scratch ! l + scratch ! (l + s))"
    by (simp add: sum.distrib add.commute)
  also have "\<dots> = sum_list (take s (halve s scratch))"
    by (simp add: t sum_list_upt_sum)
  finally show ?thesis by simp
qed

lemma tree_steps_pow2:
  "2 ^ (Suc k) \<le> length scratch \<Longrightarrow>
   tree_steps (2 ^ k) scratch ! 0 = sum_list (take (2 ^ Suc k) scratch)"
proof (induction k arbitrary: scratch)
  case 0
  then have "2 \<le> length scratch" by simp
  then have "sum_list (take 2 scratch) = scratch ! 0 + scratch ! 1"
    by (cases scratch; cases "tl scratch") (auto simp: numeral_2_eq_2)
  moreover have "0 < length scratch" using \<open>2 \<le> length scratch\<close> by linarith
  then have "tree_steps 1 scratch ! 0 = scratch ! 0 + scratch ! 1"
    by (simp add: tree_steps.simps[of "Suc 0"] tree_steps.simps[of 0] halve_def)
  ultimately show ?case by simp
next
  case (Suc k)
  let ?h = "halve (2 ^ Suc k) scratch"
  have l: "2 ^ Suc k \<le> length ?h" using Suc.prems by (simp add: halve_length)
  have "tree_steps (2 ^ Suc k) scratch = tree_steps (2 ^ k) ?h"
    by (subst tree_steps.simps) simp
  then have "tree_steps (2 ^ Suc k) scratch ! 0 = sum_list (take (2 ^ Suc k) ?h)"
    using Suc.IH[OF l] by simp
  also have "\<dots> = sum_list (take (2 * 2 ^ Suc k) scratch)"
    using Suc.prems by (intro halve_sum) simp
  finally show ?case by simp
qed

lemma tree_steps_128:
  assumes "length scratch = 128"
  shows "tree_steps (128 div 2) scratch ! 0 = sum_list scratch"
proof -
  have "tree_steps (2 ^ 6) scratch ! 0 = sum_list (take (2 ^ Suc 6) scratch)"
    using assms by (intro tree_steps_pow2) simp
  then show ?thesis using assms by simp
qed

lemma unit_reads_in_range:
  "i \<in> set (unit_reads k vpw wgs gws n gid) \<Longrightarrow> i < unat n"
  by (cases k) (auto split: if_splits)

lemma unit_sum_eq:
  assumes "length as = unat n"
  shows "unit_sum k vpw wgs gws as n gid
         = Inr (sum_list (map (\<lambda>i. as ! i) (unit_reads k vpw wgs gws n gid)))"
  unfolding unit_sum_def using assms
  by (intro accumulate_eq[where s = 0, simplified]) (auto dest: unit_reads_in_range)

lemma guarded_reads_sum:
  fixes as :: "u32 list"
  shows "sum_list (map (\<lambda>i. as ! i) (filter (\<lambda>i. i < length as) (map f [0..<m])))
         = (\<Sum>j<m. if f j < length as then as ! (f j) else 0)"
  by (simp add: sum_list_filter_guard comp_def sum_list_upt_sum)

lemma collect_Inr: "collect (map (\<lambda>x. Inr (f x)) xs) = Inr (map f xs)"
  by (induction xs) simp_all

lemma atomic_adds_total:
  "atomic_adds (map (\<lambda>p. if act p then Some (Inr (c p)) else None) ps) (Some r)
   = Inr (Some (r + sum_list (map (\<lambda>p. if act p then c p else 0) ps)))"
  by (induction ps arbitrary: r) (simp_all add: add.assoc)

lemma run_kernel_total:
  assumes "launch_order k wgs gws order"
    and "\<And>p. contribution k vpw wgs gws as n p = (if act p then Some (Inr (c p)) else None)"
  shows "run_kernel k vpw order wgs gws as (Some r) n
         = Inr (Some (r + sum_list (map (\<lambda>p. if act p then c p else 0) (participants k wgs gws))))"
proof -
  have m: "map (contribution k vpw wgs gws as n) order
        = map (\<lambda>p. if act p then Some (Inr (c p)) else None) order"
    using assms(2) by simp
  have s: "sum_list (map (\<lambda>p. if act p then c p else 0) order)
        = sum_list (map (\<lambda>p. if act p then c p else 0) (participants k wgs gws))"
    using assms(1) unfolding launch_order_def by (rule sum_list_perm)
  show ?thesis unfolding run_kernel_def m atomic_adds_total s ..
qed

lemma single_read_sum:
  fixes as :: "u32 list"
  shows "sum_list (map (\<lambda>i. as ! i) (filter (\<lambda>i. i < length as) [gid]))
         = (if gid < length as then as ! gid else 0)"
  by simp

lemma run_sum_dummy:
  assumes l: "length as = unat n" and c: "unat n \<le> gws"
    and o: "launch_order sum_dummy wgs gws order"
  shows "run_kernel sum_dummy vpw order wgs gws as (Some r) n = Inr (Some (r + sum_list as))"
proof -
  have u: "unit_sum sum_dummy vpw wgs gws as n 0 = Inr (sum_list as)"
    using unit_sum_eq[OF l, of sum_dummy vpw wgs gws 0] by (simp add: l[symmetric] map_nth)
  have "contribution sum_dummy vpw wgs gws as n p
        = (if p = 0 then Some (Inr (sum_list as)) else None)" for p
    using u by simp
  from run_kernel_total[OF o this]
  have "run_kernel sum_dummy vpw order wgs gws as (Some r) n
        = Inr (Some (r + sum_list (map (\<lambda>p. if p = 0 then sum_list as else 0) [0..<gws])))"
    by (simp add: participants_def)
  moreover have "sum_list (map (\<lambda>p. if p = 0 then sum_list as else 0) [0..<gws]) = sum_list as"
  proof (cases gws)
    case 0
    then have "as = []" using l c by simp
    then show ?thesis using 0 by simp
  next
    case (Suc m)
    have "sum_list (map (\<lambda>p. if p = 0 then sum_list as else 0) [0..<Suc m])
          = (\<Sum>p<Suc m. if p = 0 then sum_list as else 0)"
      by (rule sum_list_upt_sum)
    also have "\<dots> = sum_list as" by (simp add: sum.delta)
    finally show ?thesis using Suc by simp
  qed
  ultimately show ?thesis by simp
qed

lemma run_sum_global_atomic:
  assumes l: "length as = unat n" and c: "unat n \<le> gws"
    and o: "launch_order sum_global_atomic wgs gws order"
  shows "run_kernel sum_global_atomic vpw order wgs gws as (Some r) n
         = Inr (Some (r + sum_list as))"
proof -
  have "contribution sum_global_atomic vpw wgs gws as n p
        = (if p < length as then Some (Inr (as ! p)) else None)" for p
    using unit_sum_eq[OF l, of sum_global_atomic vpw wgs gws p] l by simp
  from run_kernel_total[OF o this]
  have "run_kernel sum_global_atomic vpw order wgs gws as (Some r) n
        = Inr (Some (r + sum_list (map (\<lambda>p. if p < length as then as ! p else 0) [0..<gws])))"
    by (simp add: participants_def)
  moreover have "sum_list (map (\<lambda>p. if p < length as then as ! p else 0) [0..<gws]) = sum_list as"
    unfolding sum_list_upt_sum using c l by (intro sum_guarded) simp
  ultimately show ?thesis by simp
qed

lemma run_sum_loop:
  assumes l: "length as = unat n" and c: "unat n \<le> gws" and v: "0 < vpw"
    and o: "launch_order sum_loop wgs gws order"
  shows "run_kernel sum_loop vpw order wgs gws as (Some r) n = Inr (Some (r + sum_list as))"
proof -
  let ?F = "\<lambda>i. if i < length as then as ! i else 0"
  have "contribution sum_loop vpw wgs gws as n p
        = (if True then Some (Inr (\<Sum>j<vpw. ?F (p + j * gws))) else None)" for p
    using unit_sum_eq[OF l, of sum_loop vpw wgs gws p] l
      guarded_reads_sum[of as "\<lambda>j. p + j * gws" vpw] by simp
  from run_kernel_total[OF o this]
  have "run_kernel sum_loop vpw order wgs gws as (Some r) n
        = Inr (Some (r + sum_list (map (\<lambda>p. \<Sum>j<vpw. ?F (p + j * gws)) [0..<gws])))"
    by (simp add: participants_def)
  moreover have "sum_list (map (\<lambda>p. \<Sum>j<vpw. ?F (p + j * gws)) [0..<gws]) = sum_list as"
  proof -
    have "sum_list (map (\<lambda>p. \<Sum>j<vpw. ?F (p + j * gws)) [0..<gws])
          = (\<Sum>p<gws. \<Sum>j<vpw. ?F (p + j * gws))"
      by (rule sum_list_upt_sum)
    also have "\<dots> = (\<Sum>j<vpw. \<Sum>p<gws. ?F (p + j * gws))"
      by (rule sum.swap)
    also have "\<dots> = (\<Sum>j<vpw. \<Sum>p<gws. ?F (j * gws + p))"
      by (intro sum.cong refl) (simp add: add.commute)
    also have "\<dots> = (\<Sum>i<vpw * gws. ?F i)" by (rule sum_grouped)
    also have "\<dots> = sum_list as"
    proof (rule sum_guarded)
      have "1 \<le> vpw" using v by simp
      then have "1 * gws \<le> vpw * gws" by (rule mult_le_mono1)
      then have "gws \<le> vpw * gws" by simp
      then show "length as \<le> vpw * gws" using c l by linarith
    qed
    finally show ?thesis .
  qed
  ultimately show ?thesis by simp
qed

lemma stage_single:
  assumes l: "length as = unat n" and k: "k = sum_local_memory \<or> k = sum_tree"
  shows "stage k vpw wgs gws as n g
         = Inr (map (\<lambda>lid. if g * wgs + lid < length as then as ! (g * wgs + lid) else 0) [0..<wgs])"
proof -
  have "unit_sum k vpw wgs gws as n gid = Inr (if gid < length as then as ! gid else 0)" for gid
    using unit_sum_eq[OF l, of k vpw wgs gws gid] k l by auto
  then show ?thesis unfolding stage_def by (simp only: collect_Inr)
qed

lemma staged_total:
  fixes as :: "u32 list"
  assumes "0 < wgs" "gws = q * wgs" "length as \<le> gws"
  shows "sum_list (map (\<lambda>g. \<Sum>l<wgs. if g * wgs + l < length as then as ! (g * wgs + l) else 0)
           [0..<gws div wgs]) = sum_list as"
proof -
  let ?F = "\<lambda>i. if i < length as then as ! i else 0"
  have q: "gws div wgs = q" using assms by simp
  have "sum_list (map (\<lambda>g. \<Sum>l<wgs. ?F (g * wgs + l)) [0..<q])
        = (\<Sum>g<q. \<Sum>l<wgs. ?F (g * wgs + l))"
    by (rule sum_list_upt_sum)
  also have "\<dots> = (\<Sum>i<q * wgs. ?F i)" by (rule sum_grouped)
  also have "\<dots> = sum_list as" using assms by (intro sum_guarded) simp
  finally show ?thesis unfolding q .
qed

lemma run_sum_local_memory:
  assumes l: "length as = unat n" and c: "unat n \<le> gws" and w: "0 < wgs" "gws = q * wgs"
    and o: "launch_order sum_local_memory wgs gws order"
  shows "run_kernel sum_local_memory vpw order wgs gws as (Some r) n
         = Inr (Some (r + sum_list as))"
proof -
  let ?F = "\<lambda>i. if i < length as then as ! i else 0"
  have "contribution sum_local_memory vpw wgs gws as n p
        = (if True then Some (Inr (\<Sum>l<wgs. ?F (p * wgs + l))) else None)" for p
    by (simp add: stage_single[OF l disjI1[OF refl]] foldl_add_sum_list sum_list_upt_sum)
  from run_kernel_total[OF o this]
  have "run_kernel sum_local_memory vpw order wgs gws as (Some r) n
        = Inr (Some (r + sum_list (map (\<lambda>p. \<Sum>l<wgs. ?F (p * wgs + l)) [0..<gws div wgs])))"
    by (simp add: participants_def)
  then show ?thesis using staged_total[OF w, of as] c l by simp
qed

lemma run_sum_tree:
  assumes l: "length as = unat n" and c: "unat n \<le> gws" and w: "gws = q * 128"
    and o: "launch_order sum_tree 128 gws order"
  shows "run_kernel sum_tree vpw order 128 gws as (Some r) n = Inr (Some (r + sum_list as))"
proof -
  let ?F = "\<lambda>i. if i < length as then as ! i else 0"
  have "contribution sum_tree vpw 128 gws as n p
        = (if True then Some (Inr (\<Sum>l<128. ?F (p * 128 + l))) else None)" for p
  proof -
    let ?scratch = "map (\<lambda>lid. ?F (p * 128 + lid)) [0..<128]"
    have "tree_steps (128 div 2) ?scratch ! 0 = sum_list ?scratch"
      by (rule tree_steps_128) simp
    also have "\<dots> = (\<Sum>l<128. ?F (p * 128 + l))" by (rule sum_list_upt_sum)
    finally show ?thesis
      by (simp only: contribution.simps stage_single[OF l disjI2[OF refl]] sum.case if_True)
  qed
  from run_kernel_total[OF o this]
  have "run_kernel sum_tree vpw order 128 gws as (Some r) n
        = Inr (Some (r + sum_list (map (\<lambda>p. \<Sum>l<128. ?F (p * 128 + l)) [0..<gws div 128])))"
    by (simp add: participants_def)
  then show ?thesis using staged_total[OF _ w, of as] c l by simp
qed

lemma run_sum_loop_coalesced:
  assumes l: "length as = unat n" and c: "unat n \<le> gws" and v: "0 < vpw"
    and w: "0 < wgs" "gws = q * wgs"
    and o: "launch_order sum_loop_coalesced wgs gws order"
  shows "run_kernel sum_loop_coalesced vpw order wgs gws as (Some r) n
         = Inr (Some (r + sum_list as))"
proof -
  let ?F = "\<lambda>i. if i < length as then as ! i else 0"
  let ?U = "\<lambda>p. \<Sum>j<vpw. ?F (p div wgs * (wgs * vpw) + j * wgs + p mod wgs)"
  have "contribution sum_loop_coalesced vpw wgs gws as n p
        = (if True then Some (Inr (?U p)) else None)" for p
    using unit_sum_eq[OF l, of sum_loop_coalesced vpw wgs gws p] l
      guarded_reads_sum[of as "\<lambda>j. p div wgs * (wgs * vpw) + j * wgs + p mod wgs" vpw] by simp
  from run_kernel_total[OF o this]
  have "run_kernel sum_loop_coalesced vpw order wgs gws as (Some r) n
        = Inr (Some (r + sum_list (map ?U [0..<gws])))"
    by (simp add: participants_def)
  moreover have "sum_list (map ?U [0..<gws]) = sum_list as"
  proof -
    have "sum_list (map ?U [0..<gws]) = (\<Sum>p<q * wgs. ?U p)"
      unfolding w(2) by (rule sum_list_upt_sum)
    also have "\<dots> = (\<Sum>g<q. \<Sum>l<wgs. ?U (g * wgs + l))"
      by (rule sum_grouped[symmetric])
    also have "\<dots> = (\<Sum>g<q. \<Sum>l<wgs. \<Sum>j<vpw. ?F (g * (vpw * wgs) + (j * wgs + l)))"
      using w(1) by (intro sum.cong refl) (simp add: add.assoc mult.commute)
    also have "\<dots> = (\<Sum>g<q. \<Sum>j<vpw. \<Sum>l<wgs. ?F (g * (vpw * wgs) + (j * wgs + l)))"
      by (intro sum.cong refl sum.swap)
    also have "\<dots> = (\<Sum>g<q. \<Sum>i<vpw * wgs. ?F (g * (vpw * wgs) + i))"
      by (intro sum.cong refl sum_grouped)
    also have "\<dots> = (\<Sum>i<q * (vpw * wgs). ?F i)" by (rule sum_grouped)
    also have "\<dots> = sum_list as"
    proof (rule sum_guarded)
      have "1 \<le> vpw" using v by simp
      then have "1 * (q * wgs) \<le> vpw * (q * wgs)" by (rule mult_le_mono1)
      then have "gws \<le> q * (vpw * wgs)" using w(2) by (simp add: mult.left_commute)
      then show "length as \<le> q * (vpw * wgs)" using c l by linarith
    qed
    finally show ?thesis .
  qed
  ultimately show ?thesis by simp
qed

lemma run_kernel_sum:
  assumes l: "length as = unat n" and b: "unat n \<le> 2147483520" and v: "0 < vpw"
    and o: "launch_order k (nat workGroupSize) (nat (global_work_size n)) order"
  shows "run_kernel k vpw order (nat workGroupSize) (nat (global_work_size n)) as (Some r) n
         = Inr (Some (r + sum_list as))"
proof -
  define q where "q = (unat n + 127) div 128"
  have g: "nat (global_work_size n) = q * 128"
    unfolding q_def by (rule global_work_size_nat[OF b])
  have w: "nat workGroupSize = 128" by (simp add: workGroupSize_def)
  have dm: "(unat n + 127) div 128 * 128 + (unat n + 127) mod 128 = unat n + 127"
    by (rule div_mult_mod_eq)
  have "(unat n + 127) mod 128 < 128" by simp
  then have c: "unat n \<le> q * 128" unfolding q_def using dm by linarith
  have p: "(0::nat) < 128" by simp
  show ?thesis
    using o unfolding g w
    by (cases k)
      (simp_all only: run_sum_dummy[OF l c] run_sum_global_atomic[OF l c]
        run_sum_loop[OF l c v] run_sum_loop_coalesced[OF l c v p refl]
        run_sum_local_memory[OF l c p refl] run_sum_tree[OF l c refl])
qed

lemma launch_order_three: "launch_order sum_tree (nat workGroupSize) (nat (global_work_size 3)) [0]"
  by (simp add: launch_order_def participants_def workGroupSize_def global_work_size_def word_div_def)



section \<open>Properties of the harness\<close>

lemma for_each_pass:
  assumes "\<And>x w. x \<in> set xs \<Longrightarrow> body x w = (Inr (), step x w)"
  shows "for_each body xs w = (Inr (), fold step xs w)"
  using assms by (induction xs arbitrary: w) simp_all

lemma for_each_fail:
  assumes "\<And>y w. y \<in> set pre \<Longrightarrow> body y w = (Inr (), step y w)"
    and "body x (fold step pre w) = (Inl e, w')"
  shows "for_each body (pre @ x # post) w = (Inl e, w')"
  using assms by (induction pre arbitrary: w) simp_all

lemma fold_events:
  assumes "\<And>x w. events (step x w) = events w @ ev x"
  shows "events (fold step xs w) = events w @ concat (map ev xs)"
  by (induction xs arbitrary: w) (simp_all add: assms)

lemma fold_cerr:
  assumes "\<And>x w. cerr (step x w) = cerr w"
  shows "cerr (fold step xs w) = cerr w"
  by (induction xs arbitrary: w) (simp_all add: assms)

lemma concat_map_const: "concat (map (\<lambda>x. c) xs) = concat (replicate (length xs) c)"
  by (simp add: map_replicate_const)

lemma upt_split: "i < m \<Longrightarrow> [0..<m] = [0..<i] @ i # [Suc i..<m]"
  by (metis le_add1 less_imp_add_positive upt_add_eq_append upt_conv_Cons plus_nat.add_0 less_eq_nat.simps(1) upt_rec)

lemma cpu_trial_pass:
  "cpu_trial file line label message r (Inr r) w
   = (Inr (), emit NextLap (emit (Validate message) (emit (Execute label) (emit Reset w))))"
  by (simp add: cpu_trial_def EXPECT_THE_SAME_def raiseFail_def emit_def)

lemma cpu_trial_fail:
  "v \<noteq> r \<Longrightarrow> cpu_trial file line label message r (Inr v) w
   = (Inl (RuntimeError message),
      (emit (Validate message) (emit (Execute label) (emit Reset w)))
        \<lparr>cerr := cerr w @ [fail_line r v message file line]\<rparr>)"
  by (auto simp: cpu_trial_def EXPECT_THE_SAME_def raiseFail_def emit_def)

lemma cpu_section_pass:
  assumes "\<And>iter. iter < benchmarkingIters \<Longrightarrow> compute iter = Inr r"
  shows "\<exists>w'. cpu_section file line label message r compute w = (Inr (), w')
     \<and> events w' = events w @ TimerStart
          # concat (replicate benchmarkingIters [Reset, Execute label, Validate message, NextLap])
          @ [Report label]
     \<and> cerr w' = cerr w \<and> result_gpu w' = result_gpu w"
proof -
  let ?step = "\<lambda>(iter::nat) w. emit NextLap (emit (Validate message) (emit (Execute label) (emit Reset w)))"
  let ?w0 = "emit TimerStart w"
  have "for_each (\<lambda>iter. cpu_trial file line label message r (compute iter))
          [0..<benchmarkingIters] ?w0 = (Inr (), fold ?step [0..<benchmarkingIters] ?w0)"
    by (rule for_each_pass) (simp add: assms cpu_trial_pass)
  moreover have "events (fold ?step xs ?w0)
       = events ?w0 @ concat (map (\<lambda>iter. [Reset, Execute label, Validate message, NextLap]) xs)" for xs
    by (rule fold_events) (simp add: emit_def)
  moreover have "cerr (fold ?step xs ?w0) = cerr ?w0" for xs
    by (rule fold_cerr) (simp add: emit_def)
  moreover have "result_gpu (fold ?step xs ?w0) = result_gpu ?w0" for xs
    by (induction xs arbitrary: w rule: rev_induct) (simp_all add: emit_def)
  ultimately show ?thesis
    by (simp add: cpu_section_def emit_def concat_map_const)
qed

lemma cpu_section_fail:
  assumes i: "iter < benchmarkingIters"
    and p: "\<And>j. j < iter \<Longrightarrow> compute j = Inr r"
    and f: "compute iter = Inr v" "v \<noteq> r"
  shows "\<exists>w'. cpu_section file line label message r compute w = (Inl (RuntimeError message), w')
     \<and> events w' = events w @ TimerStart
          # concat (replicate iter [Reset, Execute label, Validate message, NextLap])
          @ [Reset, Execute label, Validate message]
     \<and> cerr w' = cerr w @ [fail_line r v message file line]"
proof -
  let ?step = "\<lambda>(iter::nat) w. emit NextLap (emit (Validate message) (emit (Execute label) (emit Reset w)))"
  let ?w0 = "emit TimerStart w"
  let ?w1 = "fold ?step [0..<iter] ?w0"
  let ?w' = "(emit (Validate message) (emit (Execute label) (emit Reset ?w1)))
        \<lparr>cerr := cerr ?w1 @ [fail_line r v message file line]\<rparr>"
  have s: "[0..<benchmarkingIters] = [0..<iter] @ iter # [Suc iter..<benchmarkingIters]"
    using i by (rule upt_split)
  have "for_each (\<lambda>iter. cpu_trial file line label message r (compute iter))
          ([0..<iter] @ iter # [Suc iter..<benchmarkingIters]) ?w0 = (Inl (RuntimeError message), ?w')"
    by (rule for_each_fail[where step = ?step]) (simp_all add: p f cpu_trial_pass cpu_trial_fail)
  moreover have "events ?w1
       = events ?w0 @ concat (map (\<lambda>iter. [Reset, Execute label, Validate message, NextLap]) [0..<iter])"
    by (rule fold_events) (simp add: emit_def)
  moreover have "cerr ?w1 = cerr ?w0"
    by (rule fold_cerr) (simp add: emit_def)
  ultimately show ?thesis
    unfolding cpu_section_def s[symmetric]
    by (simp add: emit_def concat_map_const)
qed

lemma gpu_trial_pass:
  assumes "exec name iter workGroupSize (global_work_size n) as (Some 0) n = Inr (Some r)"
  shows "gpu_trial file exec as n r name iter w
   = (Inr (), w\<lparr>result_gpu := Some r,
                  events := events w @ [Reset, Execute name, ReadBack, Validate name, NextLap]\<rparr>)"
  using assms by (simp add: gpu_trial_def EXPECT_THE_SAME_def raiseFail_def emit_def)

lemma gpu_trial_fail:
  assumes "exec name iter workGroupSize (global_work_size n) as (Some 0) n = Inr (Some v)" "v \<noteq> r"
  shows "gpu_trial file exec as n r name iter w
   = (Inl (RuntimeError name),
      w\<lparr>result_gpu := Some v,
        events := events w @ [Reset, Execute name, ReadBack, Validate name],
        cerr := cerr w @ [fail_line r v name file 102]\<rparr>)"
  using assms by (auto simp: gpu_trial_def EXPECT_THE_SAME_def raiseFail_def emit_def)

lemma gpu_kernel_pass:
  assumes "\<And>iter. iter < benchmarkingIters \<Longrightarrow>
             exec name iter workGroupSize (global_work_size n) as (Some 0) n = Inr (Some r)"
  shows "\<exists>w'. gpu_kernel file exec as n r name w = (Inr (), w')
     \<and> events w' = events w @ [Compile name, TimerStart]
          @ concat (replicate benchmarkingIters [Reset, Execute name, ReadBack, Validate name, NextLap])
          @ [Report name]
     \<and> cerr w' = cerr w"
proof -
  let ?step = "\<lambda>(iter::nat) w. w\<lparr>result_gpu := Some r,
                  events := events w @ [Reset, Execute name, ReadBack, Validate name, NextLap]\<rparr>"
  let ?w0 = "emit TimerStart (emit (Compile name) w)"
  have "for_each (gpu_trial file exec as n r name)
          [0..<benchmarkingIters] ?w0 = (Inr (), fold ?step [0..<benchmarkingIters] ?w0)"
    by (rule for_each_pass) (simp add: assms gpu_trial_pass)
  moreover have "events (fold ?step xs ?w0)
       = events ?w0 @ concat (map (\<lambda>iter. [Reset, Execute name, ReadBack, Validate name, NextLap]) xs)" for xs
    by (rule fold_events) simp
  moreover have "cerr (fold ?step xs ?w0) = cerr ?w0" for xs
    by (rule fold_cerr) simp
  ultimately show ?thesis
    by (simp add: gpu_kernel_def emit_def concat_map_const)
qed

lemma gpu_kernel_fail:
  assumes i: "iter < benchmarkingIters"
    and p: "\<And>j. j < iter \<Longrightarrow>
             exec name j workGroupSize (global_work_size n) as (Some 0) n = Inr (Some r)"
    and f: "exec name iter workGroupSize (global_work_size n) as (Some 0) n = Inr (Some v)" "v \<noteq> r"
  shows "\<exists>w'. gpu_kernel file exec as n r name w = (Inl (RuntimeError name), w')
     \<and> events w' = events w @ [Compile name, TimerStart]
          @ concat (replicate iter [Reset, Execute name, ReadBack, Validate name, NextLap])
          @ [Reset, Execute name, ReadBack, Validate name]
     \<and> cerr w' = cerr w @ [fail_line r v name file 102]"
proof -
  let ?step = "\<lambda>(iter::nat) w. w\<lparr>result_gpu := Some r,
                  events := events w @ [Reset, Execute name, ReadBack, Validate name, NextLap]\<rparr>"
  let ?w0 = "emit TimerStart (emit (Compile name) w)"
  let ?w1 = "fold ?step [0..<iter] ?w0"
  let ?w' = "?w1\<lparr>result_gpu := Some v,
        events := events ?w1 @ [Reset, Execute name, ReadBack, Validate name],
        cerr := cerr ?w1 @ [fail_line r v name file 102]\<rparr>"
  have s: "[0..<benchmarkingIters] = [0..<iter] @ iter # [Suc iter..<benchmarkingIters]"
    using i by (rule upt_split)
  have "for_each (gpu_trial file exec as n r name)
          ([0..<iter] @ iter # [Suc iter..<benchmarkingIters]) ?w0 = (Inl (RuntimeError name), ?w')"
    by (rule for_each_fail[where step = ?step])
      (simp_all add: p gpu_trial_pass gpu_trial_fail[of exec name iter n as v r, OF f])
  moreover have "events ?w1
       = events ?w0 @ concat (map (\<lambda>iter. [Reset, Execute name, ReadBack, Validate name, NextLap]) [0..<iter])"
    by (rule fold_events) simp
  moreover have "cerr ?w1 = cerr ?w0"
    by (rule fold_cerr) simp
  ultimately show ?thesis
    unfolding gpu_kernel_def s[symmetric]
    by (simp add: emit_def concat_map_const)
qed

lemma for_each_pass_events:
  assumes "\<And>x w. x \<in> set xs \<Longrightarrow>
            \<exists>w'. body x w = (Inr (), w') \<and> events w' = events w @ ev x \<and> cerr w' = cerr w"
  shows "\<exists>w'. for_each body xs w = (Inr (), w')
           \<and> events w' = events w @ concat (map ev xs) \<and> cerr w' = cerr w"
  using assms
proof (induction xs arbitrary: w)
  case Nil
  then show ?case by simp
next
  case (Cons x xs)
  from Cons.prems[of x w] obtain w1 where
    1: "body x w = (Inr (), w1)" "events w1 = events w @ ev x" "cerr w1 = cerr w"
    by auto
  from Cons.IH[of w1] Cons.prems obtain w' where
    2: "for_each body xs w1 = (Inr (), w')" "events w' = events w1 @ concat (map ev xs)"
       "cerr w' = cerr w1"
    by auto
  show ?case using 1 2 by simp
qed

lemma for_each_fail_events:
  assumes "\<And>y w. y \<in> set pre \<Longrightarrow>
            \<exists>w'. body y w = (Inr (), w') \<and> events w' = events w @ ev y \<and> cerr w' = cerr w"
    and "\<And>w. \<exists>w'. body x w = (Inl e, w') \<and> events w' = events w @ evx \<and> cerr w' = cerr w @ ce"
  shows "\<exists>w'. for_each body (pre @ x # post) w = (Inl e, w')
           \<and> events w' = events w @ concat (map ev pre) @ evx \<and> cerr w' = cerr w @ ce"
  using assms(1)
proof (induction pre arbitrary: w)
  case Nil
  from assms(2)[of w] show ?case by auto
next
  case (Cons y pre)
  from Cons.prems[of y w] obtain w1 where
    1: "body y w = (Inr (), w1)" "events w1 = events w @ ev y" "cerr w1 = cerr w"
    by auto
  from Cons.IH[of w1] Cons.prems obtain w' where
    2: "for_each body (pre @ x # post) w1 = (Inl e, w')"
       "events w' = events w1 @ concat (map ev pre) @ evx" "cerr w' = cerr w1 @ ce"
    by auto
  show ?case using 1 2 by simp
qed

section \<open>The launch covers the array\<close>




section \<open>Every strategy returns the reference sum\<close>

lemma device_sum:
  assumes l: "length as = unat n" and b: "unat n \<le> 2147483520" and v: "0 < vpw"
    and k: "kernel_of_name name = Some k"
    and o: "launch_order k (nat workGroupSize) (nat (global_work_size n)) (orders name iter)"
  shows "device vpw orders name iter workGroupSize (global_work_size n) as (Some r) n
         = Inr (Some (r + sum_list as))"
  unfolding device_def k by (simp add: run_kernel_sum[OF l b v o])

lemma kernel_names_known: "name \<in> set kernel_names \<Longrightarrow> \<exists>k. kernel_of_name name = Some k"
  by (auto simp: kernel_names_def kernel_of_name_def)

lemma run_benchmarks_pass:
  assumes c: "\<And>iter. iter < benchmarkingIters \<Longrightarrow> cpu iter = Inr r"
    and o: "\<And>iter. iter < benchmarkingIters \<Longrightarrow> omp iter = Inr r"
    and ex: "\<And>name iter. name \<in> set kernel_names \<Longrightarrow> iter < benchmarkingIters \<Longrightarrow>
               exec name iter workGroupSize (global_work_size n) as (Some 0) n = Inr (Some r)"
  shows "\<exists>w'. run_benchmarks file r cpu omp exec as n w = (Inr (), w')
     \<and> events w' = events w
          @ (TimerStart # concat (replicate benchmarkingIters
                [Reset, Execute ''CPU'', Validate ''CPU result should be consistent!'', NextLap])
              @ [Report ''CPU''])
          @ (TimerStart # concat (replicate benchmarkingIters
                [Reset, Execute ''CPU OMP'', Validate ''CPU OpenMP result should be consistent!'', NextLap])
              @ [Report ''CPU OMP''])
          @ concat (map (\<lambda>name. [Compile name, TimerStart]
                @ concat (replicate benchmarkingIters [Reset, Execute name, ReadBack, Validate name, NextLap])
                @ [Report name]) kernel_names)
     \<and> cerr w' = cerr w"
proof -
  from cpu_section_pass[of cpu r "file" 43 "''CPU''" "''CPU result should be consistent!''" w] c
  obtain w1 where w1: "cpu_section file 43 ''CPU'' ''CPU result should be consistent!'' r cpu w
        = (Inr (), w1)"
    "events w1 = events w @ TimerStart # concat (replicate benchmarkingIters
        [Reset, Execute ''CPU'', Validate ''CPU result should be consistent!'', NextLap])
        @ [Report ''CPU'']"
    "cerr w1 = cerr w"
    by auto
  from cpu_section_pass[of omp r "file" 58 "''CPU OMP''"
      "''CPU OpenMP result should be consistent!''" w1] o
  obtain w2 where w2: "cpu_section file 58 ''CPU OMP'' ''CPU OpenMP result should be consistent!'' r
        omp w1 = (Inr (), w2)"
    "events w2 = events w1 @ TimerStart # concat (replicate benchmarkingIters
        [Reset, Execute ''CPU OMP'', Validate ''CPU OpenMP result should be consistent!'', NextLap])
        @ [Report ''CPU OMP'']"
    "cerr w2 = cerr w1"
    by auto
  have "\<exists>w'. for_each (gpu_kernel file exec as n r) kernel_names (w2\<lparr>result_gpu := None\<rparr>) = (Inr (), w')
     \<and> events w' = events (w2\<lparr>result_gpu := None\<rparr>)
          @ concat (map (\<lambda>name. [Compile name, TimerStart]
                @ concat (replicate benchmarkingIters [Reset, Execute name, ReadBack, Validate name, NextLap])
                @ [Report name]) kernel_names)
     \<and> cerr w' = cerr (w2\<lparr>result_gpu := None\<rparr>)"
    by (rule for_each_pass_events) (rule gpu_kernel_pass, rule ex)
  then obtain w3 where w3: "gpu_section file exec as n r w2 = (Inr (), w3)"
    "events w3 = events w2
          @ concat (map (\<lambda>name. [Compile name, TimerStart]
                @ concat (replicate benchmarkingIters [Reset, Execute name, ReadBack, Validate name, NextLap])
                @ [Report name]) kernel_names)"
    "cerr w3 = cerr w2"
    by (auto simp: gpu_section_def)
  show ?thesis
    unfolding run_benchmarks_def using w1 w2 w3 by simp
qed

lemma main_pass:
  assumes gen: "generate nxt seed n = Inr (as, r)"
    and adm: "\<And>iter. iter < benchmarkingIters \<Longrightarrow> admissible n (plans iter)"
    and ex: "\<And>name iter. name \<in> set kernel_names \<Longrightarrow> iter < benchmarkingIters \<Longrightarrow>
               exec name iter workGroupSize (global_work_size n) as (Some 0) n = Inr (Some r)"
  shows "\<exists>w'. main file nxt seed n plans exec w = (Inr (), w')
     \<and> events w' = events w
          @ (TimerStart # concat (replicate benchmarkingIters
                [Reset, Execute ''CPU'', Validate ''CPU result should be consistent!'', NextLap])
              @ [Report ''CPU''])
          @ (TimerStart # concat (replicate benchmarkingIters
                [Reset, Execute ''CPU OMP'', Validate ''CPU OpenMP result should be consistent!'', NextLap])
              @ [Report ''CPU OMP''])
          @ concat (map (\<lambda>name. [Compile name, TimerStart]
                @ concat (replicate benchmarkingIters [Reset, Execute name, ReadBack, Validate name, NextLap])
                @ [Report name]) kernel_names)
     \<and> cerr w' = cerr w"
proof -
  from generate_Inr[OF gen]
  have n: "unat n \<le> INT_MAX" and l: "length as = unat n" and r: "r = sum_list as"
    by simp_all
  have c: "cpu_sum as n = Inr r"
    using cpu_loop_eq[OF l n, of 0 0] r by (simp add: cpu_sum_def)
  have o: "omp_sum as (plans iter) = Inr r" if "iter < benchmarkingIters" for iter
    using omp_sum_eq[OF adm[OF that] l] r by simp
  show ?thesis
    unfolding main_def gen sum.case prod.case
    by (rule run_benchmarks_pass) (simp_all add: c o ex)
qed

text \<open>
  Claim C1. The reference sum is computed once, with the array, by sequential wraparound
  accumulation, before any strategy runs. For every array the generation loop produces
  (with at most \<open>2^31 - 128\<close> elements, so that the launch size is right), the
  sequential loop, the OpenMP reduction under every admissible plan, and each of the six
  kernels under every admissible order of its atomic additions return exactly the
  reference sum, in every trial; so the main program passes all its checks and ends
  normally, with nothing written to the error stream.
\<close>

theorem every_strategy_returns_reference_sum:
  assumes gen: "generate nxt seed n = Inr (as, reference_sum)"
    and b: "unat n \<le> 2147483520" and v: "0 < vpw"
    and adm: "\<forall>iter. admissible n (plans iter)"
    and ord: "\<forall>name k iter. kernel_of_name name = Some k \<longrightarrow>
                launch_order k (nat workGroupSize) (nat (global_work_size n)) (orders name iter)"
  shows "cpu_sum as n = Inr reference_sum
     \<and> (\<forall>iter. omp_sum as (plans iter) = Inr reference_sum)
     \<and> (\<forall>name k iter. kernel_of_name name = Some k \<longrightarrow>
            run_kernel k vpw (orders name iter) (nat workGroupSize) (nat (global_work_size n))
              as (Some 0) n = Inr (Some reference_sum))
     \<and> (\<forall>name \<in> set kernel_names. \<forall>iter.
            device vpw orders name iter workGroupSize (global_work_size n) as (Some 0) n
              = Inr (Some reference_sum))
     \<and> (\<exists>w'. main file nxt seed n plans (device vpw orders) w = (Inr (), w') \<and> cerr w' = cerr w)"
proof -
  from generate_Inr[OF gen]
  have n: "unat n \<le> INT_MAX" and l: "length as = unat n" and r: "reference_sum = sum_list as"
    by simp_all
  have 1: "cpu_sum as n = Inr reference_sum"
    using cpu_loop_eq[OF l n, of 0 0] r by (simp add: cpu_sum_def)
  have 2: "omp_sum as (plans iter) = Inr reference_sum" for iter
    using omp_sum_eq[OF _ l, of "plans iter"] adm r by simp
  have 3: "run_kernel k vpw (orders name iter) (nat workGroupSize) (nat (global_work_size n))
              as (Some 0) n = Inr (Some reference_sum)"
    if "kernel_of_name name = Some k" for name k iter
    using run_kernel_sum[OF l b v, of k "orders name iter" 0] ord that r by simp
  have 4: "device vpw orders name iter workGroupSize (global_work_size n) as (Some 0) n
              = Inr (Some reference_sum)"
    if "name \<in> set kernel_names" for name iter
  proof -
    from kernel_names_known[OF that] obtain k where k: "kernel_of_name name = Some k" ..
    show ?thesis using device_sum[OF l b v k, of orders iter 0] ord k r by simp
  qed
  have 5: "\<exists>w'. main file nxt seed n plans (device vpw orders) w = (Inr (), w') \<and> cerr w' = cerr w"
    using main_pass[OF gen, of plans "device vpw orders" "file" w] adm 4 by blast
  show ?thesis using 1 2 3 4 5 by blast
qed

lemma global_work_size_three: "nat (global_work_size 3) = 128"
  by (simp add: global_work_size_def workGroupSize_def word_div_def)

lemma launch_order_participants:
  "launch_order k (nat workGroupSize) (nat (global_work_size 3))
     (participants k (nat workGroupSize) (nat (global_work_size 3)))"
  by (simp add: launch_order_def)

theorem every_strategy_returns_reference_sum_witness:
  "generate (\<lambda>(r :: nat) lo hi. (hi - int r, r + 1)) 0 3
     = Inr ([1431655765, 1431655764, 1431655763], 4294967292)
   \<and> unat (3 :: u32) \<le> 2147483520 \<and> (0 :: nat) < 64
   \<and> admissible 3 (Combine (Worker [2, 0]) (Combine (Worker []) (Worker [1])))
   \<and> cpu_sum [1431655765, 1431655764, 1431655763] 3 = Inr 4294967292
   \<and> run_kernel sum_tree 64 (participants sum_tree (nat workGroupSize) (nat (global_work_size 3)))
        (nat workGroupSize) (nat (global_work_size 3))
        [1431655765, 1431655764, 1431655763] (Some 0) 3 = Inr (Some 4294967292)
   \<and> (\<exists>w'. main ''main_sum.cpp'' (\<lambda>(r :: nat) lo hi. (hi - int r, r + 1)) 0 3
            (\<lambda>iter. Combine (Worker [2, 0]) (Combine (Worker []) (Worker [1])))
            (device 64 (\<lambda>name iter. participants (the (kernel_of_name name))
                 (nat workGroupSize) (nat (global_work_size 3))))
            \<lparr>cerr = [], events = [], result_gpu = None\<rparr> = (Inr (), w')
          \<and> cerr w' = [])"
proof -
  have b: "unat (3 :: u32) \<le> 2147483520" by simp
  have v: "(0 :: nat) < 64" by simp
  have adm: "\<forall>iter :: nat. admissible 3 (Combine (Worker [2, 0]) (Combine (Worker []) (Worker [1])))"
    using admissible_three by simp
  have ord: "\<forall>name k (iter :: nat). kernel_of_name name = Some k \<longrightarrow>
      launch_order k (nat workGroupSize) (nat (global_work_size 3))
        (participants (the (kernel_of_name name)) (nat workGroupSize) (nat (global_work_size 3)))"
    using launch_order_participants by simp
  have k: "kernel_of_name ''sum_tree'' = Some sum_tree" by (simp add: kernel_of_name_def)
  note t = every_strategy_returns_reference_sum[OF generate_three b v adm ord,
      of "''main_sum.cpp''" "\<lparr>cerr = [], events = [], result_gpu = None\<rparr>"]
  from t have 1: "cpu_sum [1431655765, 1431655764, 1431655763] 3 = Inr 4294967292" by blast
  from t k have 2: "run_kernel sum_tree 64
        (participants (the (kernel_of_name ''sum_tree'')) (nat workGroupSize) (nat (global_work_size 3)))
        (nat workGroupSize) (nat (global_work_size 3))
        [1431655765, 1431655764, 1431655763] (Some 0) 3 = Inr (Some 4294967292)"
    by blast
  from t have 3: "\<exists>w'. main ''main_sum.cpp'' (\<lambda>(r :: nat) lo hi. (hi - int r, r + 1)) 0 3
            (\<lambda>iter. Combine (Worker [2, 0]) (Combine (Worker []) (Worker [1])))
            (device 64 (\<lambda>name iter. participants (the (kernel_of_name name))
                 (nat workGroupSize) (nat (global_work_size 3))))
            \<lparr>cerr = [], events = [], result_gpu = None\<rparr> = (Inr (), w')
          \<and> cerr w' = cerr \<lparr>cerr = [], events = [], result_gpu = None\<rparr>"
    by blast
  show ?thesis
    using generate_three b v admissible_three 1 2 3 by (simp add: k)
qed

lemma global_work_size_zero: "nat (global_work_size 0) = 0"
  by (simp add: global_work_size_def workGroupSize_def word_div_def)

lemma global_work_size_one: "nat (global_work_size 1) = 128"
  by (simp add: global_work_size_def workGroupSize_def word_div_def)

lemma run_kernel_no_units:
  assumes "launch_order k wgs 0 order"
  shows "run_kernel k vpw order wgs 0 as cell n = Inr cell"
proof -
  have "participants k wgs 0 = []" by (simp add: participants_def)
  then have "order = []" using assms by (simp add: launch_order_def)
  then show ?thesis by (simp add: run_kernel_def)
qed

text \<open>
  Claim C6. For \<open>n = 0\<close> the array is empty and every strategy returns 0; for \<open>n = 1\<close>
  every strategy returns the single element. The results are values, not faults: no
  read is out of bounds and no cell is read before it is written.
\<close>

theorem empty_and_single_element_arrays:
  "generate nxt seed 0 = Inr ([], 0)
   \<and> cpu_sum [] 0 = Inr 0
   \<and> (admissible 0 plan \<longrightarrow> omp_sum [] plan = Inr 0)
   \<and> (launch_order k (nat workGroupSize) (nat (global_work_size 0)) order \<longrightarrow>
        run_kernel k vpw order (nat workGroupSize) (nat (global_work_size 0)) [] (Some 0) 0
          = Inr (Some 0))
   \<and> (\<exists>a. generate nxt seed 1 = Inr ([a], a))
   \<and> cpu_sum [a] 1 = Inr a
   \<and> (admissible 1 plan \<longrightarrow> omp_sum [a] plan = Inr a)
   \<and> (0 < vpw \<and> launch_order k (nat workGroupSize) (nat (global_work_size 1)) order \<longrightarrow>
        run_kernel k vpw order (nat workGroupSize) (nat (global_work_size 1)) [a] (Some 0) 1
          = Inr (Some a))"
proof -
  have g0: "generate nxt seed 0 = Inr ([], 0)"
    by (simp add: generate_def gen_loop.simps)
  have c0: "cpu_sum [] 0 = Inr 0"
    by (simp add: cpu_sum_def cpu_loop.simps)
  have o0: "omp_sum [] plan = Inr 0" if "admissible 0 plan"
    using omp_sum_eq[OF that, of "[]"] by simp
  have k0: "run_kernel k vpw order (nat workGroupSize) (nat (global_work_size 0)) [] (Some 0) 0
          = Inr (Some 0)"
    if "launch_order k (nat workGroupSize) (nat (global_work_size 0)) order"
    using that unfolding global_work_size_zero by (rule run_kernel_no_units)
  have i1: "unat (1 :: u32) \<le> INT_MAX" by (simp add: INT_MAX_def)
  from generate_success[OF i1, of nxt seed]
  obtain bs where bs: "generate nxt seed 1 = Inr (bs, sum_list bs)" "length bs = unat (1 :: u32)"
    by blast
  then obtain x where "bs = [x]" by (cases bs) simp_all
  then have g1: "\<exists>a. generate nxt seed 1 = Inr ([a], a)" using bs by auto
  have l1: "length [a] = unat (1 :: u32)" by simp
  have c1: "cpu_sum [a] 1 = Inr a"
    using cpu_loop_eq[OF l1 i1, of 0 0] by (simp add: cpu_sum_def)
  have o1: "omp_sum [a] plan = Inr a" if "admissible 1 plan"
    using omp_sum_eq[OF that l1] by simp
  have b1: "unat (1 :: u32) \<le> 2147483520" by simp
  have k1: "run_kernel k vpw order (nat workGroupSize) (nat (global_work_size 1)) [a] (Some 0) 1
          = Inr (Some a)"
    if "0 < vpw" "launch_order k (nat workGroupSize) (nat (global_work_size 1)) order"
    using run_kernel_sum[OF l1 b1 that, of 0] by simp
  show ?thesis using g0 c0 o0 k0 g1 c1 o1 k1 by blast
qed

lemma admissible_zero: "admissible 0 (Combine (Worker []) (Worker []))"
  by (simp add: admissible_def)

lemma admissible_one: "admissible 1 (Combine (Worker []) (Worker [0]))"
  by (simp add: admissible_def)

lemma launch_order_zero: "launch_order sum_tree (nat workGroupSize) (nat (global_work_size 0)) []"
  by (simp add: launch_order_def participants_def global_work_size_zero)

lemma launch_order_one: "launch_order sum_tree (nat workGroupSize) (nat (global_work_size 1)) [0]"
  by (simp add: launch_order_def participants_def global_work_size_one workGroupSize_def)

theorem empty_and_single_element_arrays_witness:
  "admissible 0 (Combine (Worker []) (Worker []))
   \<and> omp_sum [] (Combine (Worker []) (Worker [])) = Inr 0
   \<and> launch_order sum_tree (nat workGroupSize) (nat (global_work_size 0)) []
   \<and> run_kernel sum_tree 64 [] (nat workGroupSize) (nat (global_work_size 0)) [] (Some 0) 0
        = Inr (Some 0)
   \<and> admissible 1 (Combine (Worker []) (Worker [0]))
   \<and> omp_sum [7] (Combine (Worker []) (Worker [0])) = Inr 7
   \<and> (0 :: nat) < 64
   \<and> launch_order sum_tree (nat workGroupSize) (nat (global_work_size 1)) [0]
   \<and> run_kernel sum_tree 64 [0] (nat workGroupSize) (nat (global_work_size 1)) [7] (Some 0) 1
        = Inr (Some 7)"
proof -
  note a = empty_and_single_element_arrays[of "\<lambda>(r :: nat) lo hi. (hi, r)" 0
      "Combine (Worker []) (Worker [])" sum_tree "[]" 64 7]
  note b = empty_and_single_element_arrays[of "\<lambda>(r :: nat) lo hi. (hi, r)" 0
      "Combine (Worker []) (Worker [0])" sum_tree "[0]" 64 7]
  have v: "(0 :: nat) < 64" by simp
  from a admissible_zero launch_order_zero
  have 1: "omp_sum [] (Combine (Worker []) (Worker [])) = Inr 0"
    "run_kernel sum_tree 64 [] (nat workGroupSize) (nat (global_work_size 0)) [] (Some 0) 0
        = Inr (Some 0)"
    by blast+
  from b admissible_one launch_order_one v
  have 2: "omp_sum [7] (Combine (Worker []) (Worker [0])) = Inr 7"
    "run_kernel sum_tree 64 [0] (nat workGroupSize) (nat (global_work_size 1)) [7] (Some 0) 1
        = Inr (Some 7)"
    by blast+
  show ?thesis
    using 1 2 admissible_zero admissible_one launch_order_zero launch_order_one v by blast
qed

text \<open>
  Claim C8. Two runs of the same strategy on the same array return the same 32-bit sum:
  two OpenMP reductions under any two admissible plans agree, and two launches of a
  kernel under any two admissible orders agree. The sequential loop has no freedom at
  all: it is a function of the array, and it returns a value.
\<close>

theorem repeated_runs_agree:
  assumes l: "length as = unat n" and b: "unat n \<le> 2147483520" and v: "0 < vpw"
    and p: "admissible n plan1" "admissible n plan2"
    and o: "launch_order k (nat workGroupSize) (nat (global_work_size n)) order1"
           "launch_order k (nat workGroupSize) (nat (global_work_size n)) order2"
  shows "(\<exists>s. cpu_sum as n = Inr s)
     \<and> omp_sum as plan1 = omp_sum as plan2
     \<and> (\<exists>s. omp_sum as plan1 = Inr s)
     \<and> run_kernel k vpw order1 (nat workGroupSize) (nat (global_work_size n)) as (Some 0) n
         = run_kernel k vpw order2 (nat workGroupSize) (nat (global_work_size n)) as (Some 0) n
     \<and> (\<exists>s. run_kernel k vpw order1 (nat workGroupSize) (nat (global_work_size n)) as (Some 0) n
              = Inr (Some s))"
proof -
  have n: "unat n \<le> INT_MAX" using b by (simp add: INT_MAX_def)
  have "cpu_sum as n = Inr (sum_list as)"
    using cpu_loop_eq[OF l n, of 0 0] by (simp add: cpu_sum_def)
  then show ?thesis
    using omp_sum_eq[OF p(1) l] omp_sum_eq[OF p(2) l]
      run_kernel_sum[OF l b v o(1), of 0] run_kernel_sum[OF l b v o(2), of 0]
    by simp
qed

lemma launch_order_two_units:
  "launch_order sum_global_atomic (nat workGroupSize) (nat (global_work_size 3)) [0..<128]
   \<and> launch_order sum_global_atomic (nat workGroupSize) (nat (global_work_size 3)) (rev [0..<128])"
  by (simp add: launch_order_def participants_def global_work_size_three)

theorem repeated_runs_agree_witness:
  "length [1431655765, 1431655764, 1431655763 :: u32] = unat (3 :: u32)
   \<and> unat (3 :: u32) \<le> 2147483520 \<and> (0 :: nat) < 64
   \<and> admissible 3 (Combine (Worker [2, 0]) (Combine (Worker []) (Worker [1])))
   \<and> admissible 3 (Worker [0, 1, 2])
   \<and> launch_order sum_global_atomic (nat workGroupSize) (nat (global_work_size 3)) [0..<128]
   \<and> launch_order sum_global_atomic (nat workGroupSize) (nat (global_work_size 3)) (rev [0..<128])
   \<and> omp_sum [1431655765, 1431655764, 1431655763]
         (Combine (Worker [2, 0]) (Combine (Worker []) (Worker [1])))
       = omp_sum [1431655765, 1431655764, 1431655763] (Worker [0, 1, 2])
   \<and> run_kernel sum_global_atomic 64 [0..<128] (nat workGroupSize) (nat (global_work_size 3))
         [1431655765, 1431655764, 1431655763] (Some 0) 3
       = run_kernel sum_global_atomic 64 (rev [0..<128]) (nat workGroupSize) (nat (global_work_size 3))
         [1431655765, 1431655764, 1431655763] (Some 0) 3"
proof -
  have l: "length [1431655765, 1431655764, 1431655763 :: u32] = unat (3 :: u32)" by simp
  have b: "unat (3 :: u32) \<le> 2147483520" by simp
  have v: "(0 :: nat) < 64" by simp
  have p2: "admissible 3 (Worker [0, 1, 2])" by (simp add: admissible_def upt_rec)
  note o = launch_order_two_units
  from repeated_runs_agree[OF l b v admissible_three p2 conjunct1[OF o] conjunct2[OF o]]
  show ?thesis using l b v admissible_three p2 o by blast
qed

section \<open>A failed validation ends the run\<close>

lemma gpu_section_fail:
  assumes names: "kernel_names = pre @ name # post"
    and p: "\<And>nm j. nm \<in> set pre \<Longrightarrow> j < benchmarkingIters \<Longrightarrow>
              exec nm j workGroupSize (global_work_size n) as (Some 0) n = Inr (Some r)"
    and i: "iter < benchmarkingIters"
    and q: "\<And>j. j < iter \<Longrightarrow>
              exec name j workGroupSize (global_work_size n) as (Some 0) n = Inr (Some r)"
    and f: "exec name iter workGroupSize (global_work_size n) as (Some 0) n = Inr (Some v)" "v \<noteq> r"
  shows "\<exists>w'. gpu_section file exec as n r w = (Inl (RuntimeError name), w')
     \<and> events w' = events w
          @ concat (map (\<lambda>nm. [Compile nm, TimerStart]
                @ concat (replicate benchmarkingIters [Reset, Execute nm, ReadBack, Validate nm, NextLap])
                @ [Report nm]) pre)
          @ ([Compile name, TimerStart]
                @ concat (replicate iter [Reset, Execute name, ReadBack, Validate name, NextLap])
                @ [Reset, Execute name, ReadBack, Validate name])
     \<and> cerr w' = cerr w @ [fail_line r v name file 102]"
proof -
  have "\<exists>w'. for_each (gpu_kernel file exec as n r) (pre @ name # post) (w\<lparr>result_gpu := None\<rparr>)
          = (Inl (RuntimeError name), w')
     \<and> events w' = events (w\<lparr>result_gpu := None\<rparr>)
          @ concat (map (\<lambda>nm. [Compile nm, TimerStart]
                @ concat (replicate benchmarkingIters [Reset, Execute nm, ReadBack, Validate nm, NextLap])
                @ [Report nm]) pre)
          @ ([Compile name, TimerStart]
                @ concat (replicate iter [Reset, Execute name, ReadBack, Validate name, NextLap])
                @ [Reset, Execute name, ReadBack, Validate name])
     \<and> cerr w' = cerr (w\<lparr>result_gpu := None\<rparr>) @ [fail_line r v name file 102]"
  proof (rule for_each_fail_events)
    fix y w0 assume "y \<in> set pre"
    then show "\<exists>w'. gpu_kernel file exec as n r y w0 = (Inr (), w')
        \<and> events w' = events w0 @ [Compile y, TimerStart]
            @ concat (replicate benchmarkingIters [Reset, Execute y, ReadBack, Validate y, NextLap])
            @ [Report y]
        \<and> cerr w' = cerr w0"
      by (intro gpu_kernel_pass p)
  next
    fix w0
    show "\<exists>w'. gpu_kernel file exec as n r name w0 = (Inl (RuntimeError name), w')
        \<and> events w' = events w0 @ ([Compile name, TimerStart]
            @ concat (replicate iter [Reset, Execute name, ReadBack, Validate name, NextLap])
            @ [Reset, Execute name, ReadBack, Validate name])
        \<and> cerr w' = cerr w0 @ [fail_line r v name file 102]"
      using gpu_kernel_fail[of iter exec name n as r v "file" w0, OF i q f] by simp
  qed
  then show ?thesis by (simp add: gpu_section_def names)
qed

lemma show_nat_43: "show_nat 43 = ''43''"
  by (simp add: show_nat.simps)

lemma show_nat_58: "show_nat 58 = ''58''"
  by (simp add: show_nat.simps)

lemma show_nat_102: "show_nat 102 = ''102''"
  by (simp add: show_nat.simps)

text \<open>
  Claim C4. Let the first trial whose result differs from the reference sum be trial
  \<open>iter\<close> of the sequential loop, of the OpenMP loop, or of kernel \<open>name\<close> (every trial
  before it, of this and of the earlier strategies, having passed). Then the run ends
  with the \<^verbatim>\<open>std::runtime_error\<close> whose text is the message of that check, which names
  the strategy; the line written to \<^verbatim>\<open>std::cerr\<close> holds this message, the two values,
  the file name and the line of the check (43, 58 or 102); and the last thing the
  program did is that check: no later trial and no later strategy is executed.
\<close>

theorem mismatch_aborts_run:
  "(iter < benchmarkingIters \<and> (\<forall>j < iter. cpu j = Inr r) \<and> cpu iter = Inr v \<and> v \<noteq> r \<longrightarrow>
      (\<exists>w'. run_benchmarks file r cpu omp exec as n w
               = (Inl (RuntimeError ''CPU result should be consistent!''), w')
         \<and> cerr w' = cerr w @ [''CPU result should be consistent!'' @ '' But ''
               @ show_nat (unat r) @ '' != '' @ show_nat (unat v) @ '', '' @ file @ '':43'']
         \<and> events w' = events w
              @ TimerStart # concat (replicate iter
                  [Reset, Execute ''CPU'', Validate ''CPU result should be consistent!'', NextLap])
              @ [Reset, Execute ''CPU'', Validate ''CPU result should be consistent!'']))
   \<and> ((\<forall>j < benchmarkingIters. cpu j = Inr r)
        \<and> iter < benchmarkingIters \<and> (\<forall>j < iter. omp j = Inr r) \<and> omp iter = Inr v \<and> v \<noteq> r \<longrightarrow>
      (\<exists>w'. run_benchmarks file r cpu omp exec as n w
               = (Inl (RuntimeError ''CPU OpenMP result should be consistent!''), w')
         \<and> cerr w' = cerr w @ [''CPU OpenMP result should be consistent!'' @ '' But ''
               @ show_nat (unat r) @ '' != '' @ show_nat (unat v) @ '', '' @ file @ '':58'']
         \<and> events w' = events w
              @ (TimerStart # concat (replicate benchmarkingIters
                  [Reset, Execute ''CPU'', Validate ''CPU result should be consistent!'', NextLap])
                @ [Report ''CPU''])
              @ TimerStart # concat (replicate iter
                  [Reset, Execute ''CPU OMP'', Validate ''CPU OpenMP result should be consistent!'', NextLap])
              @ [Reset, Execute ''CPU OMP'', Validate ''CPU OpenMP result should be consistent!'']))
   \<and> ((\<forall>j < benchmarkingIters. cpu j = Inr r) \<and> (\<forall>j < benchmarkingIters. omp j = Inr r)
        \<and> kernel_names = pre @ name # post
        \<and> (\<forall>nm \<in> set pre. \<forall>j < benchmarkingIters.
              exec nm j workGroupSize (global_work_size n) as (Some 0) n = Inr (Some r))
        \<and> iter < benchmarkingIters
        \<and> (\<forall>j < iter. exec name j workGroupSize (global_work_size n) as (Some 0) n = Inr (Some r))
        \<and> exec name iter workGroupSize (global_work_size n) as (Some 0) n = Inr (Some v)
        \<and> v \<noteq> r \<longrightarrow>
      (\<exists>w'. run_benchmarks file r cpu omp exec as n w = (Inl (RuntimeError name), w')
         \<and> cerr w' = cerr w @ [name @ '' But ''
               @ show_nat (unat r) @ '' != '' @ show_nat (unat v) @ '', '' @ file @ '':102'']
         \<and> events w' = events w
              @ (TimerStart # concat (replicate benchmarkingIters
                  [Reset, Execute ''CPU'', Validate ''CPU result should be consistent!'', NextLap])
                @ [Report ''CPU''])
              @ (TimerStart # concat (replicate benchmarkingIters
                  [Reset, Execute ''CPU OMP'', Validate ''CPU OpenMP result should be consistent!'', NextLap])
                @ [Report ''CPU OMP''])
              @ concat (map (\<lambda>nm. [Compile nm, TimerStart]
                  @ concat (replicate benchmarkingIters [Reset, Execute nm, ReadBack, Validate nm, NextLap])
                  @ [Report nm]) pre)
              @ [Compile name, TimerStart]
              @ concat (replicate iter [Reset, Execute name, ReadBack, Validate name, NextLap])
              @ [Reset, Execute name, ReadBack, Validate name]))"
proof (intro conjI impI)
  assume a: "iter < benchmarkingIters \<and> (\<forall>j < iter. cpu j = Inr r) \<and> cpu iter = Inr v \<and> v \<noteq> r"
  from cpu_section_fail[of iter cpu r v "file" 43 "''CPU''" "''CPU result should be consistent!''" w] a
  show "\<exists>w'. run_benchmarks file r cpu omp exec as n w
               = (Inl (RuntimeError ''CPU result should be consistent!''), w')
         \<and> cerr w' = cerr w @ [''CPU result should be consistent!'' @ '' But ''
               @ show_nat (unat r) @ '' != '' @ show_nat (unat v) @ '', '' @ file @ '':43'']
         \<and> events w' = events w
              @ TimerStart # concat (replicate iter
                  [Reset, Execute ''CPU'', Validate ''CPU result should be consistent!'', NextLap])
              @ [Reset, Execute ''CPU'', Validate ''CPU result should be consistent!'']"
    by (auto simp: run_benchmarks_def fail_line_def show_nat_43)
next
  assume a: "(\<forall>j < benchmarkingIters. cpu j = Inr r)
        \<and> iter < benchmarkingIters \<and> (\<forall>j < iter. omp j = Inr r) \<and> omp iter = Inr v \<and> v \<noteq> r"
  from cpu_section_pass[of cpu r "file" 43 "''CPU''" "''CPU result should be consistent!''" w] a
  obtain w1 where w1: "cpu_section file 43 ''CPU'' ''CPU result should be consistent!'' r cpu w
        = (Inr (), w1)"
    "events w1 = events w @ TimerStart # concat (replicate benchmarkingIters
        [Reset, Execute ''CPU'', Validate ''CPU result should be consistent!'', NextLap])
        @ [Report ''CPU'']"
    "cerr w1 = cerr w"
    by auto
  from cpu_section_fail[of iter omp r v "file" 58 "''CPU OMP''"
      "''CPU OpenMP result should be consistent!''" w1] a w1
  show "\<exists>w'. run_benchmarks file r cpu omp exec as n w
               = (Inl (RuntimeError ''CPU OpenMP result should be consistent!''), w')
         \<and> cerr w' = cerr w @ [''CPU OpenMP result should be consistent!'' @ '' But ''
               @ show_nat (unat r) @ '' != '' @ show_nat (unat v) @ '', '' @ file @ '':58'']
         \<and> events w' = events w
              @ (TimerStart # concat (replicate benchmarkingIters
                  [Reset, Execute ''CPU'', Validate ''CPU result should be consistent!'', NextLap])
                @ [Report ''CPU''])
              @ TimerStart # concat (replicate iter
                  [Reset, Execute ''CPU OMP'', Validate ''CPU OpenMP result should be consistent!'', NextLap])
              @ [Reset, Execute ''CPU OMP'', Validate ''CPU OpenMP result should be consistent!'']"
    by (auto simp: run_benchmarks_def fail_line_def show_nat_58)
next
  assume a: "(\<forall>j < benchmarkingIters. cpu j = Inr r) \<and> (\<forall>j < benchmarkingIters. omp j = Inr r)
        \<and> kernel_names = pre @ name # post
        \<and> (\<forall>nm \<in> set pre. \<forall>j < benchmarkingIters.
              exec nm j workGroupSize (global_work_size n) as (Some 0) n = Inr (Some r))
        \<and> iter < benchmarkingIters
        \<and> (\<forall>j < iter. exec name j workGroupSize (global_work_size n) as (Some 0) n = Inr (Some r))
        \<and> exec name iter workGroupSize (global_work_size n) as (Some 0) n = Inr (Some v)
        \<and> v \<noteq> r"
  from cpu_section_pass[of cpu r "file" 43 "''CPU''" "''CPU result should be consistent!''" w] a
  obtain w1 where w1: "cpu_section file 43 ''CPU'' ''CPU result should be consistent!'' r cpu w
        = (Inr (), w1)"
    "events w1 = events w @ TimerStart # concat (replicate benchmarkingIters
        [Reset, Execute ''CPU'', Validate ''CPU result should be consistent!'', NextLap])
        @ [Report ''CPU'']"
    "cerr w1 = cerr w"
    by auto
  from cpu_section_pass[of omp r "file" 58 "''CPU OMP''"
      "''CPU OpenMP result should be consistent!''" w1] a
  obtain w2 where w2: "cpu_section file 58 ''CPU OMP'' ''CPU OpenMP result should be consistent!'' r
        omp w1 = (Inr (), w2)"
    "events w2 = events w1 @ TimerStart # concat (replicate benchmarkingIters
        [Reset, Execute ''CPU OMP'', Validate ''CPU OpenMP result should be consistent!'', NextLap])
        @ [Report ''CPU OMP'']"
    "cerr w2 = cerr w1"
    by auto
  from gpu_section_fail[of pre name post exec n as r iter v "file" w2] a
  obtain w3 where w3: "gpu_section file exec as n r w2 = (Inl (RuntimeError name), w3)"
    "events w3 = events w2
          @ concat (map (\<lambda>nm. [Compile nm, TimerStart]
                @ concat (replicate benchmarkingIters [Reset, Execute nm, ReadBack, Validate nm, NextLap])
                @ [Report nm]) pre)
          @ ([Compile name, TimerStart]
                @ concat (replicate iter [Reset, Execute name, ReadBack, Validate name, NextLap])
                @ [Reset, Execute name, ReadBack, Validate name])"
    "cerr w3 = cerr w2 @ [fail_line r v name file 102]"
    by auto
  show "\<exists>w'. run_benchmarks file r cpu omp exec as n w = (Inl (RuntimeError name), w')
         \<and> cerr w' = cerr w @ [name @ '' But ''
               @ show_nat (unat r) @ '' != '' @ show_nat (unat v) @ '', '' @ file @ '':102'']
         \<and> events w' = events w
              @ (TimerStart # concat (replicate benchmarkingIters
                  [Reset, Execute ''CPU'', Validate ''CPU result should be consistent!'', NextLap])
                @ [Report ''CPU''])
              @ (TimerStart # concat (replicate benchmarkingIters
                  [Reset, Execute ''CPU OMP'', Validate ''CPU OpenMP result should be consistent!'', NextLap])
                @ [Report ''CPU OMP''])
              @ concat (map (\<lambda>nm. [Compile nm, TimerStart]
                  @ concat (replicate benchmarkingIters [Reset, Execute nm, ReadBack, Validate nm, NextLap])
                  @ [Report nm]) pre)
              @ [Compile name, TimerStart]
              @ concat (replicate iter [Reset, Execute name, ReadBack, Validate name, NextLap])
              @ [Reset, Execute name, ReadBack, Validate name]"
    using w1 w2 w3 by (simp add: run_benchmarks_def fail_line_def show_nat_102)
qed

lemma show_nat_digits: "show_nat 5 = ''5''" "show_nat 6 = ''6''" "show_nat 7 = ''7''"
  by (simp_all add: show_nat.simps)

theorem mismatch_aborts_run_witness:
  "(\<exists>w'. run_benchmarks ''main_sum.cpp'' 6 (\<lambda>iter. Inr (if iter = 2 then 7 else 6)) (\<lambda>iter. Inr 6)
            (\<lambda>name iter wgs gws as cell n. Inr (Some 6)) [1, 2, 3] 3
            \<lparr>cerr = [], events = [], result_gpu = None\<rparr>
          = (Inl (RuntimeError ''CPU result should be consistent!''), w')
      \<and> cerr w' = [''CPU result should be consistent! But 6 != 7, main_sum.cpp:43'']
      \<and> last (events w') = Validate ''CPU result should be consistent!'')
   \<and> (\<exists>w'. run_benchmarks ''main_sum.cpp'' 6 (\<lambda>iter. Inr 6) (\<lambda>iter. Inr (if iter = 0 then 5 else 6))
            (\<lambda>name iter wgs gws as cell n. Inr (Some 6)) [1, 2, 3] 3
            \<lparr>cerr = [], events = [], result_gpu = None\<rparr>
          = (Inl (RuntimeError ''CPU OpenMP result should be consistent!''), w')
      \<and> cerr w' = [''CPU OpenMP result should be consistent! But 6 != 5, main_sum.cpp:58''])
   \<and> (\<exists>w'. run_benchmarks ''main_sum.cpp'' 6 (\<lambda>iter. Inr 6) (\<lambda>iter. Inr 6)
            (\<lambda>name iter wgs gws as cell n.
               Inr (Some (if name = ''sum_loop'' \<and> iter = 3 then 5 else 6))) [1, 2, 3] 3
            \<lparr>cerr = [], events = [], result_gpu = None\<rparr>
          = (Inl (RuntimeError ''sum_loop''), w')
      \<and> cerr w' = [''sum_loop But 6 != 5, main_sum.cpp:102'']
      \<and> last (events w') = Validate ''sum_loop'')"
proof -
  let ?w = "\<lparr>cerr = [], events = [], result_gpu = None\<rparr>"
  have b: "benchmarkingIters = 10" by (simp add: benchmarkingIters_def)
  have u: "unat (6 :: u32) = 6" "unat (7 :: u32) = 7" "unat (5 :: u32) = 5" by simp_all
  have 1: "\<exists>w'. run_benchmarks ''main_sum.cpp'' 6 (\<lambda>iter. Inr (if iter = 2 then 7 else 6)) (\<lambda>iter. Inr 6)
            (\<lambda>name iter wgs gws as cell n. Inr (Some 6)) [1, 2, 3] 3 ?w
          = (Inl (RuntimeError ''CPU result should be consistent!''), w')
      \<and> cerr w' = [''CPU result should be consistent! But 6 != 7, main_sum.cpp:43'']
      \<and> last (events w') = Validate ''CPU result should be consistent!''"
    using conjunct1[OF mismatch_aborts_run[of 2 "\<lambda>iter. Inr (if iter = 2 then 7 else 6)" 6 7
        "''main_sum.cpp''" "\<lambda>iter. Inr 6" "\<lambda>name iter wgs gws as cell n. Inr (Some 6)"
        "[1, 2, 3]" 3 ?w]]
    by (auto simp: b u show_nat_digits)
  have 2: "\<exists>w'. run_benchmarks ''main_sum.cpp'' 6 (\<lambda>iter. Inr 6) (\<lambda>iter. Inr (if iter = 0 then 5 else 6))
            (\<lambda>name iter wgs gws as cell n. Inr (Some 6)) [1, 2, 3] 3 ?w
          = (Inl (RuntimeError ''CPU OpenMP result should be consistent!''), w')
      \<and> cerr w' = [''CPU OpenMP result should be consistent! But 6 != 5, main_sum.cpp:58'']"
    using conjunct1[OF conjunct2[OF mismatch_aborts_run[of 0 "\<lambda>iter. Inr 6" 6 5
        "''main_sum.cpp''" "\<lambda>iter. Inr (if iter = 0 then 5 else 6)"
        "\<lambda>name iter wgs gws as cell n. Inr (Some 6)" "[1, 2, 3]" 3 ?w]]]
    by (auto simp: b u show_nat_digits)
  have k: "kernel_names = [''sum_dummy'', ''sum_global_atomic''] @ ''sum_loop''
              # [''sum_loop_coalesced'', ''sum_local_memory'', ''sum_tree'']"
    by (simp add: kernel_names_def)
  have 3: "\<exists>w'. run_benchmarks ''main_sum.cpp'' 6 (\<lambda>iter. Inr 6) (\<lambda>iter. Inr 6)
            (\<lambda>name iter wgs gws as cell n.
               Inr (Some (if name = ''sum_loop'' \<and> iter = 3 then 5 else 6))) [1, 2, 3] 3 ?w
          = (Inl (RuntimeError ''sum_loop''), w')
      \<and> cerr w' = [''sum_loop But 6 != 5, main_sum.cpp:102'']
      \<and> last (events w') = Validate ''sum_loop''"
    using conjunct2[OF conjunct2[OF mismatch_aborts_run[of 3 "\<lambda>iter. Inr 6" 6 5
        "''main_sum.cpp''" "\<lambda>iter. Inr 6"
        "\<lambda>name iter wgs gws as cell n. Inr (Some (if name = ''sum_loop'' \<and> iter = 3 then 5 else 6))"
        "[1, 2, 3]" 3 ?w "[''sum_dummy'', ''sum_global_atomic'']" "''sum_loop''"
        "[''sum_loop_coalesced'', ''sum_local_memory'', ''sum_tree'']"]]] k
    by (auto simp: b u show_nat_digits)
  show ?thesis using 1 2 3 by blast
qed

section \<open>Compilation and the measured laps\<close>

lemma laps_gpu_trials:
  "laps (concat (replicate k [Reset, Execute nm, ReadBack, Validate nm, NextLap]) @ rest) (Some [])
   = replicate k [Reset, Execute nm, ReadBack, Validate nm] @ laps rest (Some [])"
  by (induction k) simp_all

lemma laps_cpu_trials:
  "laps (concat (replicate k [Reset, Execute l, Validate m, NextLap]) @ rest) (Some [])
   = replicate k [Reset, Execute l, Validate m] @ laps rest (Some [])"
  by (induction k) simp_all

lemma laps_cpu_block:
  "laps ((TimerStart # concat (replicate k [Reset, Execute l, Validate m, NextLap]) @ [Report l]) @ rest) cur
   = replicate k [Reset, Execute l, Validate m] @ laps rest None"
  using laps_cpu_trials[of k l m "Report l # rest"] by simp

lemma laps_gpu_blocks:
  "laps (concat (map (\<lambda>nm. [Compile nm, TimerStart]
           @ concat (replicate k [Reset, Execute nm, ReadBack, Validate nm, NextLap])
           @ [Report nm]) names) @ rest) None
   = concat (map (\<lambda>nm. replicate k [Reset, Execute nm, ReadBack, Validate nm]) names)
     @ laps rest None"
proof (induction names)
  case Nil
  then show ?case by simp
next
  case (Cons nm names)
  let ?tail = "concat (map (\<lambda>nm. [Compile nm, TimerStart]
           @ concat (replicate k [Reset, Execute nm, ReadBack, Validate nm, NextLap])
           @ [Report nm]) names) @ rest"
  show ?case
    using laps_gpu_trials[of k nm "Report nm # ?tail"] Cons.IH by simp
qed

lemma count_trials:
  "count_list (concat (replicate k [Reset, Execute nm, ReadBack, Validate nm, NextLap])) (Compile x) = 0"
  "count_list (concat (replicate k [Reset, Execute l, Validate m, NextLap])) (Compile x) = 0"
  "count_list (concat (replicate k [Reset, Execute l, Validate m, NextLap])) (Execute x)
   = (if l = x then k else 0)"
  "count_list (concat (replicate k [Reset, Execute nm, ReadBack, Validate nm, NextLap])) (Execute x)
   = (if nm = x then k else 0)"
  by (induction k) auto

lemma count_gpu_blocks:
  "count_list (concat (map (\<lambda>nm. [Compile nm, TimerStart]
           @ concat (replicate k [Reset, Execute nm, ReadBack, Validate nm, NextLap])
           @ [Report nm]) names)) (Compile x) = count_list names x"
  "count_list (concat (map (\<lambda>nm. [Compile nm, TimerStart]
           @ concat (replicate k [Reset, Execute nm, ReadBack, Validate nm, NextLap])
           @ [Report nm]) names)) (Execute x) = k * count_list names x"
  by (induction names) (simp_all add: count_trials)

lemma kernel_names_once: "x \<in> set kernel_names \<Longrightarrow> count_list kernel_names x = 1"
  by (auto simp: kernel_names_def)

lemma kernel_names_distinct: "distinct kernel_names"
  by (simp add: kernel_names_def)

lemma kernel_not_cpu: "x \<in> set kernel_names \<Longrightarrow> x \<noteq> ''CPU'' \<and> x \<noteq> ''CPU OMP''"
  by (auto simp: kernel_names_def)

lemma no_execute_in_other_blocks:
  assumes "x \<notin> set names"
  shows "Execute x \<notin> set (concat (map (\<lambda>nm. [Compile nm, TimerStart]
           @ concat (replicate k [Reset, Execute nm, ReadBack, Validate nm, NextLap])
           @ [Report nm]) names))"
    and "Compile x \<notin> set (concat (map (\<lambda>nm. [Compile nm, TimerStart]
           @ concat (replicate k [Reset, Execute nm, ReadBack, Validate nm, NextLap])
           @ [Report nm]) names))"
  using assms by (auto split: if_splits)

lemma first_compile_precedes_trials:
  assumes x: "x \<in> set names" and c: "Compile x \<notin> set before" and e: "Execute x \<notin> set before"
  shows "Execute x \<notin> set (takeWhile (\<lambda>e. e \<noteq> Compile x)
           (before @ concat (map (\<lambda>nm. [Compile nm, TimerStart]
              @ concat (replicate k [Reset, Execute nm, ReadBack, Validate nm, NextLap])
              @ [Report nm]) names)))"
proof -
  let ?B = "\<lambda>nm. [Compile nm, TimerStart]
              @ concat (replicate k [Reset, Execute nm, ReadBack, Validate nm, NextLap])
              @ [Report nm]"
  from split_list_first[OF x] obtain pre post where
    s: "names = pre @ x # post" "x \<notin> set pre" by blast
  let ?head = "before @ concat (map ?B pre)"
  have h: "Compile x \<notin> set ?head" "Execute x \<notin> set ?head"
    using c e no_execute_in_other_blocks[OF s(2), of k] by auto
  have "before @ concat (map ?B names) = ?head @ (Compile x # tl (?B x) @ concat (map ?B post))"
    by (simp add: s(1))
  moreover have "takeWhile (\<lambda>e. e \<noteq> Compile x) (?head @ (Compile x # tl (?B x) @ concat (map ?B post)))
        = ?head"
    using h(1) by (subst takeWhile_append2) auto
  ultimately show ?thesis using h(2) by simp
qed

lemma cpu_trial_events:
  "\<exists>res w' t. cpu_trial file line label message r computed w = (res, w')
     \<and> events w' = events w @ t
     \<and> prefix t [Reset, Execute label, Validate message, NextLap]
     \<and> (res = Inr () \<longrightarrow> t = [Reset, Execute label, Validate message, NextLap])"
proof (cases computed)
  case (Inl e)
  then have "cpu_trial file line label message r computed w
             = (Inl e, emit (Execute label) (emit Reset w))"
    by (simp add: cpu_trial_def)
  then show ?thesis by (simp add: emit_def)
next
  case (Inr v)
  show ?thesis
  proof (cases "v = r")
    case True
    then show ?thesis using Inr by (simp add: cpu_trial_pass emit_def)
  next
    case False
    then show ?thesis using Inr by (simp add: cpu_trial_fail emit_def)
  qed
qed

lemma gpu_trial_events:
  "\<exists>res w' t. gpu_trial file exec as n r name iter w = (res, w')
     \<and> events w' = events w @ t
     \<and> prefix t [Reset, Execute name, ReadBack, Validate name, NextLap]
     \<and> (res = Inr () \<longrightarrow> t = [Reset, Execute name, ReadBack, Validate name, NextLap])"
proof (cases "exec name iter workGroupSize (global_work_size n) as (Some 0) n")
  case (Inl e)
  then have "gpu_trial file exec as n r name iter w
             = (Inl e, emit (Execute name) (emit Reset (w\<lparr>result_gpu := Some 0\<rparr>)))"
    by (simp add: gpu_trial_def emit_def)
  then show ?thesis by (simp add: emit_def)
next
  case (Inr cell)
  show ?thesis
  proof (cases cell)
    case None
    then have "gpu_trial file exec as n r name iter w
             = (Inl UninitializedRead,
                emit ReadBack ((emit (Execute name) (emit Reset (w\<lparr>result_gpu := Some 0\<rparr>)))
                  \<lparr>result_gpu := None\<rparr>))"
      using Inr by (simp add: gpu_trial_def emit_def)
    then show ?thesis by (simp add: emit_def)
  next
    case (Some v)
    show ?thesis
    proof (cases "v = r")
      case True
      then show ?thesis
        using gpu_trial_pass[of exec name iter n as r "file" w] Inr Some by simp
    next
      case False
      then show ?thesis
        using gpu_trial_fail[of exec name iter n as v r "file" w] Inr Some by simp
    qed
  qed
qed

lemma for_each_events_prefix:
  assumes "\<And>x w. x \<in> set xs \<Longrightarrow>
     \<exists>res w' t. body x w = (res, w') \<and> events w' = events w @ t
       \<and> prefix t (full x) \<and> (res = Inr () \<longrightarrow> t = full x)"
  shows "\<exists>res w' es. for_each body xs w = (res, w') \<and> events w' = events w @ es
       \<and> prefix es (concat (map full xs)) \<and> (res = Inr () \<longrightarrow> es = concat (map full xs))"
  using assms
proof (induction xs arbitrary: w)
  case Nil
  then show ?case by simp
next
  case (Cons x xs)
  from Cons.prems[of x w] obtain res w1 t where
    1: "body x w = (res, w1)" "events w1 = events w @ t" "prefix t (full x)"
       "res = Inr () \<longrightarrow> t = full x"
    by auto
  show ?case
  proof (cases res)
    case (Inl e)
    then have "for_each body (x # xs) w = (Inl e, w1)" using 1 by simp
    moreover have "prefix t (concat (map full (x # xs)))" using 1(3) by (simp add: prefix_prefix)
    ultimately show ?thesis using 1(2) by auto
  next
    case (Inr u)
    then have t: "t = full x" using 1(4) by simp
    from Cons.IH[of w1] Cons.prems obtain res' w' es where
      2: "for_each body xs w1 = (res', w')" "events w' = events w1 @ es"
         "prefix es (concat (map full xs))" "res' = Inr () \<longrightarrow> es = concat (map full xs)"
      by auto
    have "for_each body (x # xs) w = (res', w')" using 1 2 Inr by simp
    moreover have "events w' = events w @ (t @ es)" using 1 2 by simp
    moreover have "prefix (t @ es) (concat (map full (x # xs)))" using 2(3) t by simp
    ultimately show ?thesis using 2(4) t by auto
  qed
qed

lemma cpu_section_events:
  "\<exists>res w' es. cpu_section file line label message r compute w = (res, w')
     \<and> events w' = events w @ es
     \<and> prefix es (TimerStart # concat (replicate benchmarkingIters
           [Reset, Execute label, Validate message, NextLap]) @ [Report label])
     \<and> (res = Inr () \<longrightarrow> es = TimerStart # concat (replicate benchmarkingIters
           [Reset, Execute label, Validate message, NextLap]) @ [Report label])"
proof -
  let ?full = "\<lambda>iter :: nat. [Reset, Execute label, Validate message, NextLap]"
  from for_each_events_prefix[of "[0..<benchmarkingIters]"
      "\<lambda>iter. cpu_trial file line label message r (compute iter)" ?full "emit TimerStart w"]
    cpu_trial_events
  obtain res w' es where
    1: "for_each (\<lambda>iter. cpu_trial file line label message r (compute iter))
          [0..<benchmarkingIters] (emit TimerStart w) = (res, w')"
       "events w' = events (emit TimerStart w) @ es"
       "prefix es (concat (map ?full [0..<benchmarkingIters]))"
       "res = Inr () \<longrightarrow> es = concat (map ?full [0..<benchmarkingIters])"
    by blast
  have c: "concat (map ?full [0..<benchmarkingIters])
           = concat (replicate benchmarkingIters [Reset, Execute label, Validate message, NextLap])"
    by (simp add: concat_map_const)
  show ?thesis
  proof (cases res)
    case (Inl e)
    then have "cpu_section file line label message r compute w = (Inl e, w')"
      using 1(1) by (simp add: cpu_section_def)
    moreover have "events w' = events w @ (TimerStart # es)" using 1(2) by (simp add: emit_def)
    moreover have "prefix (TimerStart # es) (TimerStart # concat (replicate benchmarkingIters
           [Reset, Execute label, Validate message, NextLap]) @ [Report label])"
      using 1(3) unfolding c by (simp add: prefix_prefix)
    ultimately show ?thesis by auto
  next
    case (Inr u)
    then have e: "es = concat (replicate benchmarkingIters [Reset, Execute label, Validate message, NextLap])"
      using 1(4) c by simp
    have "cpu_section file line label message r compute w = (Inr (), emit (Report label) w')"
      using 1(1) Inr by (simp add: cpu_section_def)
    moreover have "events (emit (Report label) w') = events w @ (TimerStart # es @ [Report label])"
      using 1(2) by (simp add: emit_def)
    ultimately show ?thesis unfolding e by auto
  qed
qed

lemma gpu_kernel_events:
  "\<exists>res w' es. gpu_kernel file exec as n r name w = (res, w')
     \<and> events w' = events w @ es
     \<and> prefix es ([Compile name, TimerStart] @ concat (replicate benchmarkingIters
           [Reset, Execute name, ReadBack, Validate name, NextLap]) @ [Report name])
     \<and> (res = Inr () \<longrightarrow> es = [Compile name, TimerStart] @ concat (replicate benchmarkingIters
           [Reset, Execute name, ReadBack, Validate name, NextLap]) @ [Report name])"
proof -
  let ?full = "\<lambda>iter :: nat. [Reset, Execute name, ReadBack, Validate name, NextLap]"
  let ?w0 = "emit TimerStart (emit (Compile name) w)"
  from for_each_events_prefix[of "[0..<benchmarkingIters]"
      "gpu_trial file exec as n r name" ?full ?w0]
    gpu_trial_events
  obtain res w' es where
    1: "for_each (gpu_trial file exec as n r name) [0..<benchmarkingIters] ?w0 = (res, w')"
       "events w' = events ?w0 @ es"
       "prefix es (concat (map ?full [0..<benchmarkingIters]))"
       "res = Inr () \<longrightarrow> es = concat (map ?full [0..<benchmarkingIters])"
    by blast
  have c: "concat (map ?full [0..<benchmarkingIters])
           = concat (replicate benchmarkingIters [Reset, Execute name, ReadBack, Validate name, NextLap])"
    by (simp add: concat_map_const)
  show ?thesis
  proof (cases res)
    case (Inl e)
    then have "gpu_kernel file exec as n r name w = (Inl e, w')"
      using 1(1) by (simp add: gpu_kernel_def)
    moreover have "events w' = events w @ ([Compile name, TimerStart] @ es)"
      using 1(2) by (simp add: emit_def)
    moreover have "prefix ([Compile name, TimerStart] @ es) ([Compile name, TimerStart]
           @ concat (replicate benchmarkingIters
               [Reset, Execute name, ReadBack, Validate name, NextLap]) @ [Report name])"
      using 1(3) unfolding c by (simp add: prefix_prefix)
    ultimately show ?thesis by auto
  next
    case (Inr u)
    then have e: "es = concat (replicate benchmarkingIters
        [Reset, Execute name, ReadBack, Validate name, NextLap])"
      using 1(4) c by simp
    have "gpu_kernel file exec as n r name w = (Inr (), emit (Report name) w')"
      using 1(1) Inr by (simp add: gpu_kernel_def)
    moreover have "events (emit (Report name) w')
         = events w @ ([Compile name, TimerStart] @ es @ [Report name])"
      using 1(2) by (simp add: emit_def)
    ultimately show ?thesis unfolding e by auto
  qed
qed

lemma run_benchmarks_events:
  "\<exists>res w' es. run_benchmarks file r cpu omp exec as n w = (res, w')
     \<and> events w' = events w @ es
     \<and> prefix es
          ((TimerStart # concat (replicate benchmarkingIters
                [Reset, Execute ''CPU'', Validate ''CPU result should be consistent!'', NextLap])
              @ [Report ''CPU''])
           @ (TimerStart # concat (replicate benchmarkingIters
                [Reset, Execute ''CPU OMP'', Validate ''CPU OpenMP result should be consistent!'', NextLap])
              @ [Report ''CPU OMP''])
           @ concat (map (\<lambda>name. [Compile name, TimerStart]
                @ concat (replicate benchmarkingIters [Reset, Execute name, ReadBack, Validate name, NextLap])
                @ [Report name]) kernel_names))"
proof -
  let ?C = "TimerStart # concat (replicate benchmarkingIters
                [Reset, Execute ''CPU'', Validate ''CPU result should be consistent!'', NextLap])
              @ [Report ''CPU'']"
  let ?O = "TimerStart # concat (replicate benchmarkingIters
                [Reset, Execute ''CPU OMP'', Validate ''CPU OpenMP result should be consistent!'', NextLap])
              @ [Report ''CPU OMP'']"
  let ?B = "\<lambda>name. [Compile name, TimerStart]
                @ concat (replicate benchmarkingIters [Reset, Execute name, ReadBack, Validate name, NextLap])
                @ [Report name]"
  from cpu_section_events[of "file" 43 "''CPU''" "''CPU result should be consistent!''" r cpu w]
  obtain res1 w1 es1 where
    1: "cpu_section file 43 ''CPU'' ''CPU result should be consistent!'' r cpu w = (res1, w1)"
       "events w1 = events w @ es1" "prefix es1 ?C" "res1 = Inr () \<longrightarrow> es1 = ?C"
    by blast
  show ?thesis
  proof (cases res1)
    case (Inl e)
    then have "run_benchmarks file r cpu omp exec as n w = (Inl e, w1)"
      using 1(1) by (simp add: run_benchmarks_def)
    moreover have "prefix es1 (?C @ ?O @ concat (map ?B kernel_names))"
      using 1(3) by (rule prefix_prefix)
    ultimately show ?thesis using 1(2) by blast
  next
    case (Inr u)
    then have e1: "es1 = ?C" using 1(4) by simp
    from cpu_section_events[of "file" 58 "''CPU OMP''"
        "''CPU OpenMP result should be consistent!''" r omp w1]
    obtain res2 w2 es2 where
      2: "cpu_section file 58 ''CPU OMP'' ''CPU OpenMP result should be consistent!'' r omp w1
            = (res2, w2)"
         "events w2 = events w1 @ es2" "prefix es2 ?O" "res2 = Inr () \<longrightarrow> es2 = ?O"
      by blast
    show ?thesis
    proof (cases res2)
      case (Inl e)
      then have "run_benchmarks file r cpu omp exec as n w = (Inl e, w2)"
        using 1(1) 2(1) Inr by (simp add: run_benchmarks_def)
      moreover have "events w2 = events w @ (?C @ es2)" using 1(2) 2(2) e1 by simp
      moreover have "prefix es2 (?O @ concat (map ?B kernel_names))"
        using 2(3) by (rule prefix_prefix)
      then have "prefix (?C @ es2) (?C @ ?O @ concat (map ?B kernel_names))"
        by (simp only: same_prefix_prefix)
      ultimately show ?thesis by blast
    next
      case Inr2: (Inr u2)
      then have e2: "es2 = ?O" using 2(4) by simp
      from for_each_events_prefix[of kernel_names "gpu_kernel file exec as n r" ?B
          "w2\<lparr>result_gpu := None\<rparr>"] gpu_kernel_events
      obtain res3 w3 es3 where
        3: "for_each (gpu_kernel file exec as n r) kernel_names (w2\<lparr>result_gpu := None\<rparr>)
              = (res3, w3)"
           "events w3 = events (w2\<lparr>result_gpu := None\<rparr>) @ es3"
           "prefix es3 (concat (map ?B kernel_names))"
        by blast
      have "run_benchmarks file r cpu omp exec as n w = (res3, w3)"
        using 1(1) 2(1) 3(1) Inr Inr2 by (simp add: run_benchmarks_def gpu_section_def)
      moreover have "events w3 = events w @ (?C @ ?O @ es3)"
        using 1(2) 2(2) 3(2) e1 e2 by simp
      moreover have "prefix (?C @ ?O @ es3) (?C @ ?O @ concat (map ?B kernel_names))"
        using 3(3) by (simp only: same_prefix_prefix)
      ultimately show ?thesis by blast
    qed
  qed
qed

lemma prefix_count_le: "prefix es full \<Longrightarrow> count_list es x \<le> count_list full x"
  by (auto simp: prefix_def)

lemma prefix_takeWhile:
  assumes "prefix es full"
  shows "prefix (takeWhile P es) (takeWhile P full)"
proof -
  from assms obtain zs where f: "full = es @ zs" by (auto simp: prefix_def)
  show ?thesis
  proof (cases "\<forall>x \<in> set es. P x")
    case True
    then have a: "takeWhile P es = es" by (simp add: takeWhile_eq_all_conv)
    have b: "takeWhile P full = es @ takeWhile P zs"
      unfolding f using True by (simp add: takeWhile_append2)
    show ?thesis unfolding a b by simp
  next
    case False
    then obtain x where "x \<in> set es" "\<not> P x" by blast
    then have "takeWhile P full = takeWhile P es"
      unfolding f by (rule takeWhile_append1)
    then show ?thesis by simp
  qed
qed

lemma laps_prefix: "prefix (laps es cur) (laps (es @ zs) cur)"
  by (induction es cur rule: laps.induct) (simp_all split: option.splits)

lemma prefix_laps: "prefix es full \<Longrightarrow> prefix (laps es cur) (laps full cur)"
  using laps_prefix by (auto simp: prefix_def)

lemma full_trace_properties:
  fixes k :: nat
  defines "full \<equiv>
      (TimerStart # concat (replicate k
            [Reset, Execute ''CPU'', Validate ''CPU result should be consistent!'', NextLap])
          @ [Report ''CPU''])
      @ (TimerStart # concat (replicate k
            [Reset, Execute ''CPU OMP'', Validate ''CPU OpenMP result should be consistent!'', NextLap])
          @ [Report ''CPU OMP''])
      @ concat (map (\<lambda>name. [Compile name, TimerStart]
            @ concat (replicate k [Reset, Execute name, ReadBack, Validate name, NextLap])
            @ [Report name]) kernel_names)"
  shows "laps full None
         = replicate k [Reset, Execute ''CPU'', Validate ''CPU result should be consistent!'']
           @ replicate k [Reset, Execute ''CPU OMP'', Validate ''CPU OpenMP result should be consistent!'']
           @ concat (map (\<lambda>name. replicate k [Reset, Execute name, ReadBack, Validate name])
               kernel_names)"
    and "name \<in> set kernel_names \<Longrightarrow>
           count_list full (Compile name) = 1 \<and> count_list full (Execute name) = k
         \<and> Execute name \<notin> set (takeWhile (\<lambda>e. e \<noteq> Compile name) full)"
proof -
  let ?C = "TimerStart # concat (replicate k
                [Reset, Execute ''CPU'', Validate ''CPU result should be consistent!'', NextLap])
              @ [Report ''CPU'']"
  let ?O = "TimerStart # concat (replicate k
                [Reset, Execute ''CPU OMP'', Validate ''CPU OpenMP result should be consistent!'', NextLap])
              @ [Report ''CPU OMP'']"
  let ?B = "\<lambda>name. [Compile name, TimerStart]
                @ concat (replicate k [Reset, Execute name, ReadBack, Validate name, NextLap])
                @ [Report name]"
  let ?G = "concat (map ?B kernel_names)"
  show "laps full None
         = replicate k [Reset, Execute ''CPU'', Validate ''CPU result should be consistent!'']
           @ replicate k [Reset, Execute ''CPU OMP'', Validate ''CPU OpenMP result should be consistent!'']
           @ concat (map (\<lambda>name. replicate k [Reset, Execute name, ReadBack, Validate name])
               kernel_names)"
    unfolding full_def using laps_gpu_blocks[of k kernel_names "[]"]
    by (simp only: laps_cpu_block append_Nil2 laps.simps)
  assume nm: "name \<in> set kernel_names"
  note d = kernel_not_cpu[OF nm]
  have 1: "count_list full (Compile name) = 1"
    unfolding full_def using kernel_names_once[OF nm]
    by (simp add: count_trials count_gpu_blocks[simplified])
  have 2: "count_list full (Execute name) = k"
    unfolding full_def using kernel_names_once[OF nm] d
    by (auto simp: count_trials count_gpu_blocks[simplified])
  have "Execute name \<notin> set (takeWhile (\<lambda>e. e \<noteq> Compile name) ((?C @ ?O) @ ?G))"
    using d by (intro first_compile_precedes_trials[OF nm]) (auto split: if_splits)
  then have 3: "Execute name \<notin> set (takeWhile (\<lambda>e. e \<noteq> Compile name) full)"
    unfolding full_def by simp
  show "count_list full (Compile name) = 1 \<and> count_list full (Execute name) = k
         \<and> Execute name \<notin> set (takeWhile (\<lambda>e. e \<noteq> Compile name) full)"
    using 1 2 3 by simp
qed

text \<open>
  Claim C10. In every run, whatever the strategies return, a kernel is compiled at most
  once, none of its executions comes before its compilation, and no lap the timers
  measure holds a compilation. In a run where every trial passes, each of the six
  kernels is compiled exactly once and executed 10 times, and the laps are, for each
  kernel, 10 laps that each hold exactly the reset, the execution, the read-back and the
  validation.
\<close>

theorem kernel_compiled_once_before_its_laps:
  "(\<exists>res w' es. run_benchmarks file r cpu omp exec as n w = (res, w')
      \<and> events w' = events w @ es
      \<and> (\<forall>name \<in> set kernel_names.
             count_list es (Compile name) \<le> 1
           \<and> Execute name \<notin> set (takeWhile (\<lambda>e. e \<noteq> Compile name) es))
      \<and> (\<forall>lap \<in> set (laps es None). \<forall>name. Compile name \<notin> set lap))
   \<and> ((\<forall>iter < benchmarkingIters. cpu iter = Inr r)
        \<and> (\<forall>iter < benchmarkingIters. omp iter = Inr r)
        \<and> (\<forall>name \<in> set kernel_names. \<forall>iter < benchmarkingIters.
               exec name iter workGroupSize (global_work_size n) as (Some 0) n = Inr (Some r)) \<longrightarrow>
       (\<exists>w' es. run_benchmarks file r cpu omp exec as n w = (Inr (), w')
          \<and> events w' = events w @ es
          \<and> benchmarkingIters = 10
          \<and> (\<forall>name \<in> set kernel_names.
                 count_list es (Compile name) = 1
               \<and> count_list es (Execute name) = benchmarkingIters
               \<and> Execute name \<notin> set (takeWhile (\<lambda>e. e \<noteq> Compile name) es))
          \<and> laps es None
              = replicate benchmarkingIters
                  [Reset, Execute ''CPU'', Validate ''CPU result should be consistent!'']
                @ replicate benchmarkingIters
                  [Reset, Execute ''CPU OMP'', Validate ''CPU OpenMP result should be consistent!'']
                @ concat (map (\<lambda>name. replicate benchmarkingIters
                    [Reset, Execute name, ReadBack, Validate name]) kernel_names)))"
proof (intro conjI impI)
  let ?k = benchmarkingIters
  let ?full = "(TimerStart # concat (replicate ?k
            [Reset, Execute ''CPU'', Validate ''CPU result should be consistent!'', NextLap])
          @ [Report ''CPU''])
      @ (TimerStart # concat (replicate ?k
            [Reset, Execute ''CPU OMP'', Validate ''CPU OpenMP result should be consistent!'', NextLap])
          @ [Report ''CPU OMP''])
      @ concat (map (\<lambda>name. [Compile name, TimerStart]
            @ concat (replicate ?k [Reset, Execute name, ReadBack, Validate name, NextLap])
            @ [Report name]) kernel_names)"
  note fl = full_trace_properties(1)[of ?k]
  note fp = full_trace_properties(2)[of _ ?k]
  from run_benchmarks_events[of "file" r cpu omp exec as n w]
  obtain res w' es where
    1: "run_benchmarks file r cpu omp exec as n w = (res, w')" "events w' = events w @ es"
       "prefix es ?full"
    by blast
  have a: "count_list es (Compile name) \<le> 1
           \<and> Execute name \<notin> set (takeWhile (\<lambda>e. e \<noteq> Compile name) es)"
    if nm: "name \<in> set kernel_names" for name
  proof -
    have "count_list es (Compile name) \<le> count_list ?full (Compile name)"
      using 1(3) by (rule prefix_count_le)
    moreover have "set (takeWhile (\<lambda>e. e \<noteq> Compile name) es)
          \<subseteq> set (takeWhile (\<lambda>e. e \<noteq> Compile name) ?full)"
      using prefix_takeWhile[OF 1(3)] by (rule set_mono_prefix)
    ultimately show ?thesis using fp[OF nm] by auto
  qed
  have b: "Compile name \<notin> set lap" if "lap \<in> set (laps es None)" for lap name
  proof -
    have "set (laps es None) \<subseteq> set (laps ?full None)"
      using prefix_laps[OF 1(3)] by (rule set_mono_prefix)
    then have "lap \<in> set (laps ?full None)" using that by blast
    then show ?thesis unfolding fl by auto
  qed
  show "\<exists>res w' es. run_benchmarks file r cpu omp exec as n w = (res, w')
      \<and> events w' = events w @ es
      \<and> (\<forall>name \<in> set kernel_names.
             count_list es (Compile name) \<le> 1
           \<and> Execute name \<notin> set (takeWhile (\<lambda>e. e \<noteq> Compile name) es))
      \<and> (\<forall>lap \<in> set (laps es None). \<forall>name. Compile name \<notin> set lap)"
    using 1(1,2) a b by blast
  assume h: "(\<forall>iter < benchmarkingIters. cpu iter = Inr r)
        \<and> (\<forall>iter < benchmarkingIters. omp iter = Inr r)
        \<and> (\<forall>name \<in> set kernel_names. \<forall>iter < benchmarkingIters.
               exec name iter workGroupSize (global_work_size n) as (Some 0) n = Inr (Some r))"
  from run_benchmarks_pass[of cpu r omp exec n as "file" w] h
  obtain w2 where w2: "run_benchmarks file r cpu omp exec as n w = (Inr (), w2)"
    "events w2 = events w @ ?full"
    by blast
  have "benchmarkingIters = 10" by (simp add: benchmarkingIters_def)
  then show "\<exists>w' es. run_benchmarks file r cpu omp exec as n w = (Inr (), w')
          \<and> events w' = events w @ es
          \<and> benchmarkingIters = 10
          \<and> (\<forall>name \<in> set kernel_names.
                 count_list es (Compile name) = 1
               \<and> count_list es (Execute name) = benchmarkingIters
               \<and> Execute name \<notin> set (takeWhile (\<lambda>e. e \<noteq> Compile name) es))
          \<and> laps es None
              = replicate benchmarkingIters
                  [Reset, Execute ''CPU'', Validate ''CPU result should be consistent!'']
                @ replicate benchmarkingIters
                  [Reset, Execute ''CPU OMP'', Validate ''CPU OpenMP result should be consistent!'']
                @ concat (map (\<lambda>name. replicate benchmarkingIters
                    [Reset, Execute name, ReadBack, Validate name]) kernel_names)"
    using w2 fl fp by blast
qed

theorem kernel_compiled_once_before_its_laps_witness:
  "\<exists>w' es. run_benchmarks ''main_sum.cpp'' 6 (\<lambda>iter. Inr 6) (\<lambda>iter. Inr 6)
        (\<lambda>name iter wgs gws as cell n. Inr (Some 6)) [1, 2, 3] 3
        \<lparr>cerr = [], events = [], result_gpu = None\<rparr> = (Inr (), w')
     \<and> events w' = es
     \<and> count_list es (Compile ''sum_tree'') = 1
     \<and> count_list es (Execute ''sum_tree'') = 10
     \<and> Execute ''sum_tree'' \<notin> set (takeWhile (\<lambda>e. e \<noteq> Compile ''sum_tree'') es)
     \<and> length (laps es None) = 80"
proof -
  have m: "''sum_tree'' \<in> set kernel_names" by (simp add: kernel_names_def)
  have l: "length kernel_names = 6" by (simp add: kernel_names_def)
  from conjunct2[OF kernel_compiled_once_before_its_laps[of "''main_sum.cpp''" 6 "\<lambda>iter. Inr 6"
      "\<lambda>iter. Inr 6" "\<lambda>name iter wgs gws as cell n. Inr (Some 6)" "[1, 2, 3]" 3
      "\<lparr>cerr = [], events = [], result_gpu = None\<rparr>"]]
  obtain w' es where r: "run_benchmarks ''main_sum.cpp'' 6 (\<lambda>iter. Inr 6) (\<lambda>iter. Inr 6)
        (\<lambda>name iter wgs gws as cell n. Inr (Some 6)) [1, 2, 3] 3
        \<lparr>cerr = [], events = [], result_gpu = None\<rparr> = (Inr (), w')"
    "events w' = events \<lparr>cerr = [], events = [], result_gpu = None\<rparr> @ es"
    "benchmarkingIters = 10"
    "\<forall>name \<in> set kernel_names.
            count_list es (Compile name) = 1
          \<and> count_list es (Execute name) = benchmarkingIters
          \<and> Execute name \<notin> set (takeWhile (\<lambda>e. e \<noteq> Compile name) es)"
    "laps es None
         = replicate benchmarkingIters
             [Reset, Execute ''CPU'', Validate ''CPU result should be consistent!'']
           @ replicate benchmarkingIters
             [Reset, Execute ''CPU OMP'', Validate ''CPU OpenMP result should be consistent!'']
           @ concat (map (\<lambda>name. replicate benchmarkingIters
               [Reset, Execute name, ReadBack, Validate name]) kernel_names)"
    by auto
  have "length (laps es None) = 80"
    unfolding r(5) r(3) by (simp add: length_concat comp_def sum_list_triv l)
  then show ?thesis using r m by auto
qed

section \<open>The result cell in a trial\<close>

lemma cpu_loop_last_store:
  "length as = unat n \<Longrightarrow> unat n \<le> INT_MAX \<Longrightarrow> i \<le> unat n \<Longrightarrow>
   cpu_loop as n i s = Inr (last (s # cpu_stores as n i s))"
proof (induction as n i s rule: cpu_loop.induct)
  case (1 as n i s)
  show ?case
  proof (cases "i < unat n")
    case True
    have ne: "i \<noteq> INT_MAX" using True 1 by simp
    have r: "rd as i = Inr (as ! i)" using True 1 by (simp add: rd_def)
    have "cpu_loop as n i s = cpu_loop as n (i + 1) (s + as ! i)"
      using True ne r by (subst cpu_loop.simps) simp
    also have "\<dots> = Inr (last ((s + as ! i) # cpu_stores as n (i + 1) (s + as ! i)))"
      using "1.IH"[OF True r ne] 1(2-) True by simp
    also have "cpu_stores as n i s = (s + as ! i) # cpu_stores as n (i + 1) (s + as ! i)"
      using True ne r by (subst cpu_stores.simps) simp
    then have "last ((s + as ! i) # cpu_stores as n (i + 1) (s + as ! i))
               = last (s # cpu_stores as n i s)"
      by simp
    finally show ?thesis .
  next
    case False
    then show ?thesis
      by (subst cpu_loop.simps, subst cpu_stores.simps) simp
  qed
qed

text \<open>
  Claim C7, as amended. Every trial starts from a zero cell: the CPU loops start from a
  fresh \<^verbatim>\<open>sum = 0\<close>, and a kernel trial writes zero to \<^verbatim>\<open>result_gpu\<close> first, so the
  kernel always sees a zero cell and the outcome of the trial does not depend on what the
  cell held before. The strategy then runs once, and the cell's final value is read and
  compared with the reference sum. The sequential loop stores into the cell once for
  every element of the array, \<open>n\<close> times in a trial; the value compared is the last one
  stored.
\<close>

theorem result_cell_reset_before_each_trial:
  "(length as = unat n \<and> unat n \<le> INT_MAX \<longrightarrow>
      length (cpu_stores as n 0 0) = unat n
    \<and> cpu_sum as n = Inr (last (0 # cpu_stores as n 0 0)))
   \<and> (\<exists>res w'. cpu_trial file line label message r (Inr v) w = (res, w')
        \<and> events w' = events w @ [Reset, Execute label, Validate message]
             @ (if v = r then [NextLap] else []))
   \<and> gpu_trial file exec as n r name iter w
       = gpu_trial file (\<lambda>nm it wgs gws bs cell m. exec nm it wgs gws bs (Some 0) m)
           as n r name iter w
   \<and> gpu_trial file exec as n r name iter (w\<lparr>result_gpu := c\<rparr>)
       = gpu_trial file exec as n r name iter w
   \<and> (exec name iter workGroupSize (global_work_size n) as (Some 0) n = Inr (Some v) \<longrightarrow>
        (\<exists>res w'. gpu_trial file exec as n r name iter w = (res, w')
          \<and> events w' = events w @ [Reset, Execute name, ReadBack, Validate name]
               @ (if v = r then [NextLap] else [])
          \<and> result_gpu w' = Some v))"
proof (intro conjI impI)
  assume a: "length as = unat n \<and> unat n \<le> INT_MAX"
  then show "length (cpu_stores as n 0 0) = unat n"
    using cpu_stores_length[of as n 0 0] by simp
  show "cpu_sum as n = Inr (last (0 # cpu_stores as n 0 0))"
    using a cpu_loop_last_store[of as n 0 0] by (simp add: cpu_sum_def)
next
  show "\<exists>res w'. cpu_trial file line label message r (Inr v) w = (res, w')
        \<and> events w' = events w @ [Reset, Execute label, Validate message]
             @ (if v = r then [NextLap] else [])"
    by (cases "v = r") (simp_all add: cpu_trial_pass cpu_trial_fail emit_def)
next
  show "gpu_trial file exec as n r name iter w
       = gpu_trial file (\<lambda>nm it wgs gws bs cell m. exec nm it wgs gws bs (Some 0) m)
           as n r name iter w"
    by (simp add: gpu_trial_def emit_def)
next
  show "gpu_trial file exec as n r name iter (w\<lparr>result_gpu := c\<rparr>)
       = gpu_trial file exec as n r name iter w"
    by (simp add: gpu_trial_def emit_def EXPECT_THE_SAME_def)
next
  assume e: "exec name iter workGroupSize (global_work_size n) as (Some 0) n = Inr (Some v)"
  show "\<exists>res w'. gpu_trial file exec as n r name iter w = (res, w')
          \<and> events w' = events w @ [Reset, Execute name, ReadBack, Validate name]
               @ (if v = r then [NextLap] else [])
          \<and> result_gpu w' = Some v"
  proof (cases "v = r")
    case True
    then show ?thesis using gpu_trial_pass[of exec name iter n as r "file" w] e by simp
  next
    case False
    then show ?thesis using gpu_trial_fail[of exec name iter n as v r "file" w] e by simp
  qed
qed

text \<open>
  The claim as stated, one write to the cell in a trial, fails on the sequential loop:
  on an array of two elements it stores twice.
\<close>

theorem cpu_loop_stores_once_per_element:
  "cpu_stores [1, 2] 2 0 0 = [1, 3] \<and> length (cpu_stores [1, 2] 2 0 0) \<noteq> 1
   \<and> cpu_sum [1, 2] 2 = Inr 3"
  by (simp add: cpu_stores.simps cpu_sum_def cpu_loop.simps rd_def INT_MAX_def)

theorem result_cell_reset_before_each_trial_witness:
  "length [1, 2 :: u32] = unat (2 :: u32) \<and> unat (2 :: u32) \<le> INT_MAX
   \<and> length (cpu_stores [1, 2] 2 0 0) = unat (2 :: u32)
   \<and> cpu_sum [1, 2] 2 = Inr (last (0 # cpu_stores [1, 2] 2 0 0))
   \<and> (\<lambda>name iter wgs gws as cell n. Inr (map_option (\<lambda>c. c + 3) cell))
        ''sum_tree'' 0 workGroupSize (global_work_size 2) [1, 2] (Some 0) 2
      = (Inr (Some 3) :: fault + u32 option)
   \<and> (\<exists>res w'. gpu_trial ''main_sum.cpp''
          (\<lambda>name iter wgs gws as cell n. Inr (map_option (\<lambda>c. c + 3) cell)) [1, 2] 2 3
          ''sum_tree'' 0 \<lparr>cerr = [], events = [], result_gpu = Some 99\<rparr> = (res, w')
        \<and> events w' = [Reset, Execute ''sum_tree'', ReadBack, Validate ''sum_tree'', NextLap]
        \<and> result_gpu w' = Some 3)"
proof -
  have h: "length [1, 2 :: u32] = unat (2 :: u32) \<and> unat (2 :: u32) \<le> INT_MAX"
    by (simp add: INT_MAX_def)
  have e: "(\<lambda>name iter wgs gws as cell n. Inr (map_option (\<lambda>c. c + 3) cell))
        ''sum_tree'' 0 workGroupSize (global_work_size 2) [1, 2] (Some 0) 2
      = (Inr (Some 3) :: fault + u32 option)"
    by simp
  note t = result_cell_reset_before_each_trial[of "[1, 2]" 2 "''main_sum.cpp''" _ _ _ 3 3
      "\<lparr>cerr = [], events = [], result_gpu = Some 99\<rparr>"
      "\<lambda>name iter wgs gws as cell n. Inr (map_option (\<lambda>c. c + 3) cell)" "''sum_tree''" 0]
  from t h have 1: "length (cpu_stores [1, 2] 2 0 0) = unat (2 :: u32)"
    "cpu_sum [1, 2] 2 = Inr (last (0 # cpu_stores [1, 2] 2 0 0))"
    by blast+
  from t e have 2: "\<exists>res w'. gpu_trial ''main_sum.cpp''
          (\<lambda>name iter wgs gws as cell n. Inr (map_option (\<lambda>c. c + 3) cell)) [1, 2] 2 3
          ''sum_tree'' 0 \<lparr>cerr = [], events = [], result_gpu = Some 99\<rparr> = (res, w')
        \<and> events w' = events \<lparr>cerr = [], events = [], result_gpu = Some 99\<rparr>
             @ [Reset, Execute ''sum_tree'', ReadBack, Validate ''sum_tree'']
             @ (if (3 :: u32) = 3 then [NextLap] else [])
        \<and> result_gpu w' = Some 3"
    by blast
  show ?thesis using h 1 e 2 by simp
qed

end
